theory Spec2Isabelle
  imports Complex_Main "HOL-Library.Multiset" "HOL-Library.Sublist"
    "HOL-Library.Code_Target_Numeral"
begin

section \<open>Bacchus: the blood-alcohol calculator of \<open>src/App.tsx\<close>\<close>

text \<open>
  The component \<open>AlcoholCalculator\<close> keeps four pieces of state (sex, weight, hours
  since the first drink, the drink list) and derives five values from them through a
  chain of memoised computations. A JavaScript \<open>number\<close> is modelled by the
  mathematical value it denotes: the number type of this development is \<open>real\<close>
  (and \<open>int\<close> for the results of \<open>Math.round\<close> and \<open>Math.floor\<close>), so the rounding
  of binary64 arithmetic is taken to be the identity and every equation below is one of
  exact arithmetic. The one operation of the estimator that could leave the finite
  numbers, a division by a computed divisor, is modelled with an explicit failure value.
\<close>

subsection \<open>Constants and types\<close>

definition ETHANOL_DENSITY :: real where
  "ETHANOL_DENSITY = 0.789"

definition R_MALE :: real where
  "R_MALE = 0.68"

definition R_FEMALE :: real where
  "R_FEMALE = 0.55"

definition BETA :: real where
  "BETA = 0.15"

definition LEGAL_LIMIT :: real where
  "LEGAL_LIMIT = 0.5"

text \<open>The interface \<open>Drink\<close>; the field \<open>id\<close> is named \<open>id_drink\<close> here.\<close>

record Drink =
  id_drink :: string
  label :: string
  volumeMl :: real
  abv :: real

datatype Sex = male | female

text \<open>The four \<open>useState\<close> cells of the component.\<close>

record State =
  sex :: Sex
  weight :: real
  hoursSinceStart :: real
  drinks :: "Drink list"

subsection \<open>The estimator\<close>

text \<open>\<open>const r = sex === "male" ? R_MALE : R_FEMALE\<close>\<close>

definition r :: "Sex \<Rightarrow> real" where
  "r s = (if s = male then R_MALE else R_FEMALE)"

text \<open>
  \<open>drinks.reduce((sum, d) => sum + d.volumeMl * (d.abv / 100) * ETHANOL_DENSITY, 0)\<close>:
  a left fold from 0.
\<close>

definition gramsPureAlcohol :: "Drink list \<Rightarrow> real" where
  "gramsPureAlcohol ds =
     foldl (\<lambda>sum d. sum + volumeMl d * (abv d / 100) * ETHANOL_DENSITY) 0 ds"

text \<open>
  JavaScript division never raises: a zero divisor gives an infinity or NaN, which is no
  real number. \<open>js_div\<close> returns \<open>None\<close> there. It is used where the divisor is
  computed; a division by a non-zero literal or constant is written \<open>/\<close>.
\<close>

definition js_div :: "real \<Rightarrow> real \<Rightarrow> real option" where
  "js_div a b = (if b = 0 then None else Some (a / b))"

text \<open>
  \<open>if (!weight || weight <= 0) return 0; return gramsPureAlcohol / (weight * r);\<close>
  On a number, \<open>!weight\<close> holds for zero (and for NaN, which is no real).
\<close>

definition peakBAC :: "real \<Rightarrow> Sex \<Rightarrow> real \<Rightarrow> real option" where
  "peakBAC grams s w =
     (if w = 0 \<or> w \<le> 0 then Some 0 else js_div grams (w * r s))"

text \<open>\<open>Math.max(0, peakBAC - BETA * Math.max(0, hoursSinceStart))\<close>\<close>

definition currentBAC :: "real \<Rightarrow> real \<Rightarrow> real" where
  "currentBAC peak hours = max 0 (peak - BETA * max 0 hours)"

text \<open>\<open>if (currentBAC <= LEGAL_LIMIT) return 0; return (currentBAC - LEGAL_LIMIT) / BETA;\<close>\<close>

definition hoursToLegal :: "real \<Rightarrow> real" where
  "hoursToLegal cur = (if cur \<le> LEGAL_LIMIT then 0 else (cur - LEGAL_LIMIT) / BETA)"

text \<open>\<open>currentBAC / BETA\<close>\<close>

definition hoursToZero :: "real \<Rightarrow> real" where
  "hoursToZero cur = cur / BETA"

text \<open>The five derived values of one render, in the order the component computes them.\<close>

record Derived =
  grams_v :: real
  peak_v :: real
  current_v :: real
  toLegal_v :: real
  toZero_v :: real

definition AlcoholCalculator :: "State \<Rightarrow> Derived option" where
  "AlcoholCalculator st =
     (let g = gramsPureAlcohol (drinks st) in
      case peakBAC g (sex st) (weight st) of
        None \<Rightarrow> None
      | Some p \<Rightarrow>
          (let c = currentBAC p (hoursSinceStart st) in
           Some \<lparr>grams_v = g, peak_v = p, current_v = c,
                 toLegal_v = hoursToLegal c, toZero_v = hoursToZero c\<rparr>))"

section \<open>The program in binary64 arithmetic\<close>

text \<open>
  Where a property depends on how results are rounded, the exact reading above says
  too much. This part models a JavaScript \<open>number\<close> as what it is, an IEEE 754 binary64
  value: a finite value (a real that the format represents), an infinity, or NaN. The
  two zeros are identified: the program neither divides by a zero (its divisors below
  are the constants 100, \<open>BETA\<close> and 60) nor shows the sign of one.
\<close>

datatype number = Fin real | PInf | NInf | NaN

subsection \<open>Rounding to nearest, ties to even\<close>

text \<open>The number of binary digits of a natural number.\<close>

fun bits :: "nat \<Rightarrow> nat" where
  "bits n = (if n = 0 then 0 else Suc (bits (n div 2)))"

text \<open>The exponent \<open>e\<close> of a positive real \<open>a\<close>: \<open>2 ^ e \<le> a < 2 ^ (e + 1)\<close>.\<close>

definition expo :: "real \<Rightarrow> int" where
  "expo a = (if 1 \<le> a then int (bits (nat \<lfloor>a\<rfloor>)) - 1
             else - int (bits (nat (\<lceil>1 / a\<rceil> - 1))))"

text \<open>The nearest integer, a tie going to the even one.\<close>

definition rne :: "real \<Rightarrow> int" where
  "rne x = (let f = \<lfloor>x\<rfloor>; d = x - of_int f in
            if d < 1 / 2 then f else if 1 / 2 < d then f + 1
            else if even f then f else f + 1)"

text \<open>
  A binary64 value has a significand of 53 bits and an exponent from \<open>- 1022\<close> to 1023;
  below \<open>2 ^ - 1022\<close> the values are the multiples of \<open>2 ^ - 1074\<close> (the subnormal
  range). \<open>quantum x\<close> is the distance between the values around \<open>x\<close>, and \<open>rnd x\<close>
  the value nearest to \<open>x\<close> when the exponent is not bounded above.
\<close>

definition binade :: "real \<Rightarrow> int" where
  "binade x = (if \<bar>x\<bar> < 2 powi (- 1022) then - 1022 else expo \<bar>x\<bar>)"

definition quantum :: "real \<Rightarrow> real" where
  "quantum x = 2 powi (binade x - 52)"

definition rnd :: "real \<Rightarrow> real" where
  "rnd x = of_int (rne (x / quantum x)) * quantum x"

text \<open>
  The result of an operation whose exact value is \<open>x\<close>: the nearest binary64 value,
  and an infinity when that nearest value reaches \<open>2 ^ 1024\<close>.
\<close>

definition round64 :: "real \<Rightarrow> number" where
  "round64 x =
     (if 2 powi 1024 \<le> \<bar>rnd x\<bar> then (if 0 < x then PInf else NInf) else Fin (rnd x))"

text \<open>The reals that are binary64 values, and the unit roundoff.\<close>

definition double :: "real \<Rightarrow> bool" where
  "double x \<longleftrightarrow> rnd x = x \<and> \<bar>x\<bar> < 2 powi 1024"

definition u64 :: real where
  "u64 = 1 / 2 ^ 53"

subsection \<open>The operations of JavaScript on numbers\<close>


fun fadd :: "number \<Rightarrow> number \<Rightarrow> number" where
  "fadd (Fin x) (Fin y) = round64 (x + y)"
| "fadd NaN b = NaN"
| "fadd a NaN = NaN"
| "fadd PInf NInf = NaN"
| "fadd NInf PInf = NaN"
| "fadd PInf b = PInf"
| "fadd a PInf = PInf"
| "fadd NInf b = NInf"
| "fadd a NInf = NInf"


fun fmul :: "number \<Rightarrow> number \<Rightarrow> number" where
  "fmul (Fin x) (Fin y) = round64 (x * y)"
| "fmul NaN b = NaN"
| "fmul a NaN = NaN"
| "fmul (Fin x) PInf = (if x = 0 then NaN else if 0 < x then PInf else NInf)"
| "fmul (Fin x) NInf = (if x = 0 then NaN else if 0 < x then NInf else PInf)"
| "fmul PInf (Fin y) = (if y = 0 then NaN else if 0 < y then PInf else NInf)"
| "fmul NInf (Fin y) = (if y = 0 then NaN else if 0 < y then NInf else PInf)"
| "fmul PInf PInf = PInf"
| "fmul PInf NInf = NInf"
| "fmul NInf PInf = NInf"
| "fmul NInf NInf = PInf"

fun fdiv :: "number \<Rightarrow> number \<Rightarrow> number" where
  "fdiv (Fin x) (Fin y) =
     (if y = 0 then (if x = 0 then NaN else if 0 < x then PInf else NInf)
      else round64 (x / y))"
| "fdiv NaN b = NaN"
| "fdiv a NaN = NaN"
| "fdiv (Fin x) PInf = Fin 0"
| "fdiv (Fin x) NInf = Fin 0"
| "fdiv PInf (Fin y) = (if 0 \<le> y then PInf else NInf)"
| "fdiv NInf (Fin y) = (if 0 \<le> y then NInf else PInf)"
| "fdiv PInf b = NaN"
| "fdiv NInf b = NaN"



fun Math_round :: "number \<Rightarrow> number" where
  "Math_round (Fin x) = Fin (of_int \<lfloor>x + 1 / 2\<rfloor>)"
| "Math_round a = a"

fun Math_floor :: "number \<Rightarrow> number" where
  "Math_floor (Fin x) = Fin (of_int \<lfloor>x\<rfloor>)"
| "Math_floor a = a"

text \<open>
  The remainder \<open>%\<close>: the dividend minus the divisor times the quotient cut towards
  zero, so with the sign of the dividend.
\<close>

definition trunc :: "real \<Rightarrow> int" where
  "trunc x = (if 0 \<le> x then \<lfloor>x\<rfloor> else \<lceil>x\<rceil>)"

fun frem :: "number \<Rightarrow> number \<Rightarrow> number" where
  "frem (Fin x) (Fin y) = (if y = 0 then NaN else round64 (x - y * of_int (trunc (x / y))))"
| "frem NaN b = NaN"
| "frem a NaN = NaN"
| "frem PInf b = NaN"
| "frem NInf b = NaN"
| "frem (Fin x) b = Fin x"

subsection \<open>The estimator in binary64\<close>

text \<open>
  A numeric literal of the source denotes the binary64 value nearest to it:
  \<open>ETHANOL_DENSITY = 0.789\<close>, \<open>BETA = 0.15\<close>, \<open>LEGAL_LIMIT = 0.5\<close>.
\<close>

definition ETHANOL_DENSITY64 :: real where
  "ETHANOL_DENSITY64 = rnd 0.789"

definition BETA64 :: real where
  "BETA64 = rnd 0.15"


text \<open>
  \<open>d.volumeMl * (d.abv / 100) * ETHANOL_DENSITY\<close>, the grams of one drink, and the
  \<open>reduce\<close> that adds them from the left, starting at 0. The fields of a drink are
  finite numbers.
\<close>

definition grams64 :: "Drink \<Rightarrow> number" where
  "grams64 d =
     fmul (fmul (Fin (volumeMl d)) (fdiv (Fin (abv d)) (Fin 100))) (Fin ETHANOL_DENSITY64)"

definition gramsPureAlcohol64 :: "Drink list \<Rightarrow> number" where
  "gramsPureAlcohol64 ds = foldl (\<lambda>sum d. fadd sum (grams64 d)) (Fin 0) ds"

text \<open>
  The input contract of the estimator, for binary64 fields: a volume that is not
  negative and a percentage from 0 to 100. Under it no step of \<open>grams64\<close> overflows,
  and \<open>grams_val\<close> is the real value of its result.
\<close>

definition in_contract :: "Drink \<Rightarrow> bool" where
  "in_contract d \<longleftrightarrow>
     double (volumeMl d) \<and> double (abv d) \<and> 0 \<le> volumeMl d \<and> 0 \<le> abv d \<and> abv d \<le> 100"

definition grams_val :: "Drink \<Rightarrow> real" where
  "grams_val d = rnd (rnd (volumeMl d * rnd (abv d / 100)) * ETHANOL_DENSITY64)"

text \<open>The two fields of a drink that the computation reads.\<close>

definition volume_abv :: "Drink \<Rightarrow> real \<times> real" where
  "volume_abv d = (volumeMl d, abv d)"




subsection \<open>Formatting a duration: \<open>fmtHM\<close>\<close>

text \<open>The decimal digits of a natural number, most significant first.\<close>

fun digits :: "nat \<Rightarrow> nat list" where
  "digits n = (if n < 10 then [n] else digits (n div 10) @ [n mod 10])"

definition digit_char :: "nat \<Rightarrow> char" where
  "digit_char d = ''0123456789'' ! d"

definition decimal :: "nat \<Rightarrow> string" where
  "decimal n = map digit_char (digits n)"

definition integral :: "real \<Rightarrow> bool" where
  "integral x \<longleftrightarrow> x = of_int \<lfloor>x\<rfloor>"

text \<open>
  The conversion of a number to a string (ECMAScript \<open>Number::toString\<close>). It writes
  the shortest decimal that identifies the binary64 value. For an integer of magnitude
  below \<open>2 ^ 53\<close> that is its decimal numeral, after a minus sign when it is negative.
  For every other number (a fraction, a larger integer, an infinity, NaN) the string
  is left to the parameter \<open>big\<close>.
\<close>

definition Number_toString :: "(number \<Rightarrow> string) \<Rightarrow> number \<Rightarrow> string" where
  "Number_toString big v =
     (case v of
        Fin x \<Rightarrow>
          if integral x \<and> \<bar>x\<bar> < 2 ^ 53 then
            (if x < 0 then CHR ''-'' # decimal (nat (- \<lfloor>x\<rfloor>)) else decimal (nat \<lfloor>x\<rfloor>))
          else big v
      | _ \<Rightarrow> big v)"

text \<open>
  \<open>String.prototype.padStart(targetLength, padString)\<close>: a string already long enough,
  or an empty filler, gives the string itself; otherwise the filler is repeated and cut
  to the missing length, and put in front.
\<close>

definition padStart :: "nat \<Rightarrow> string \<Rightarrow> string \<Rightarrow> string" where
  "padStart targetLength padString s =
     (if targetLength \<le> length s \<or> padString = [] then s
      else take (targetLength - length s)
             (concat (replicate (targetLength - length s) padString)) @ s)"

text \<open>
  \<open>const totalMinutes = Math.round(n * 60); const h = Math.floor(totalMinutes / 60);
  const m = totalMinutes % 60; return `${h}h ${m.toString().padStart(2, "0")}m`;\<close>
\<close>

definition fmtHM :: "(number \<Rightarrow> string) \<Rightarrow> number \<Rightarrow> string" where
  "fmtHM big n =
     (let totalMinutes = Math_round (fmul n (Fin 60));
          h = Math_floor (fdiv totalMinutes (Fin 60));
          m = frem totalMinutes (Fin 60)
      in Number_toString big h @ ''h '' @ padStart 2 ''0'' (Number_toString big m) @ ''m'')"

subsection \<open>Reading a formatted duration back\<close>

text \<open>
  Modelled from the spec: the parser of its round-trip property for \<open>fmtHM\<close>
  (``formatting then parsing back yields the same minute count''); the source has no
  parser. A string \<open>Hh MMm\<close>, with \<open>H\<close> a decimal numeral and \<open>MM\<close> two decimal digits, is
  read as the minute count \<open>60 * H + MM\<close>. Any other string is rejected.
\<close>

definition digit_val :: "char \<Rightarrow> nat option" where
  "digit_val c =
     (let k = (of_char c :: nat) in if 48 \<le> k \<and> k \<le> 57 then Some (k - 48) else None)"

fun read_digits :: "string \<Rightarrow> nat \<Rightarrow> nat option" where
  "read_digits [] acc = Some acc"
| "read_digits (c # cs) acc =
     (case digit_val c of None \<Rightarrow> None | Some d \<Rightarrow> read_digits cs (10 * acc + d))"

definition read_nat :: "string \<Rightarrow> nat option" where
  "read_nat s = (if s = [] then None else read_digits s 0)"

definition parseHM :: "string \<Rightarrow> nat option" where
  "parseHM s =
     (let hs = takeWhile (\<lambda>c. c \<noteq> CHR ''h'') s;
          rest = dropWhile (\<lambda>c. c \<noteq> CHR ''h'') s
      in if length rest = 5 \<and> take 2 rest = ''h '' \<and> drop 4 rest = ''m'' then
           (case (read_nat hs, read_nat (take 2 (drop 2 rest))) of
              (Some H, Some M) \<Rightarrow> Some (60 * H + M)
            | _ \<Rightarrow> None)
         else None)"

text \<open>The value of a list of decimal digits, most significant first.\<close>

definition val10 :: "nat list \<Rightarrow> nat" where
  "val10 ds = foldl (\<lambda>a d. 10 * a + d) 0 ds"

subsection \<open>Editing the drink list\<close>

text \<open>
  A \<open>Partial<Drink>\<close>: each field is present or absent. The spread
  \<open>{ ...d, ...patch }\<close> takes a field from the patch where the patch has it and from
  the drink otherwise.
\<close>

record DrinkPatch =
  patch_id :: "string option"
  patch_label :: "string option"
  patch_volumeMl :: "real option"
  patch_abv :: "real option"

definition spread :: "Drink \<Rightarrow> DrinkPatch \<Rightarrow> Drink" where
  "spread d patch =
     \<lparr>id_drink = (case patch_id patch of None \<Rightarrow> id_drink d | Some v \<Rightarrow> v),
      label = (case patch_label patch of None \<Rightarrow> label d | Some v \<Rightarrow> v),
      volumeMl = (case patch_volumeMl patch of None \<Rightarrow> volumeMl d | Some v \<Rightarrow> v),
      abv = (case patch_abv patch of None \<Rightarrow> abv d | Some v \<Rightarrow> v)\<rparr>"

text \<open>\<open>setDrinks((s) => s.map((d) => (d.id === id ? { ...d, ...patch } : d)))\<close>\<close>

definition updateDrink :: "string \<Rightarrow> DrinkPatch \<Rightarrow> State \<Rightarrow> State" where
  "updateDrink i patch st =
     st\<lparr>drinks := map (\<lambda>d. if id_drink d = i then spread d patch else d) (drinks st)\<rparr>"

text \<open>\<open>setDrinks((s) => s.filter((d) => d.id !== id))\<close>\<close>

definition removeDrink :: "string \<Rightarrow> State \<Rightarrow> State" where
  "removeDrink i st = st\<lparr>drinks := filter (\<lambda>d. id_drink d \<noteq> i) (drinks st)\<rparr>"

section \<open>Properties of the estimator\<close>

lemma foldl_plus_sum_list:
  fixes f :: "'a \<Rightarrow> real"
  shows "foldl (\<lambda>sum d. sum + f d) a ds = a + sum_list (map f ds)"
  by (induction ds arbitrary: a) (simp_all add: add.assoc)

lemma grams_sum_list:
  "gramsPureAlcohol ds = (\<Sum>d\<leftarrow>ds. volumeMl d * (abv d / 100) * 0.789)"
  unfolding gramsPureAlcohol_def ETHANOL_DENSITY_def
  by (simp only: foldl_plus_sum_list add_0)

lemma r_pos: "0 < r s"
  by (simp add: r_def R_MALE_def R_FEMALE_def)

lemma peakBAC_Some:
  "peakBAC g s w = Some (if w \<le> 0 then 0 else g / (w * r s))"
  using r_pos [of s] by (simp add: peakBAC_def js_div_def)

subsection \<open>The claims about the estimator\<close>



text \<open>
  Claim C2. For every grams value, weight and sex the peak is a number: it is 0 when
  \<open>weight \<le> 0\<close>, and \<open>grams / (weight * r sex)\<close> otherwise, with \<open>r male = 0.68\<close> and
  \<open>r female = 0.55\<close>.
\<close>

theorem C2_peak:
  "peakBAC g s w = Some (if w \<le> 0 then 0 else g / (w * r s))
   \<and> r male = 0.68 \<and> r female = 0.55"
  by (simp add: peakBAC_Some r_def R_MALE_def R_FEMALE_def)

theorem C2_witness:
  "peakBAC 40 male 0 = Some 0 \<and> peakBAC 40 female (- 5) = Some 0
   \<and> peakBAC 33 female 60 = Some 1"
  using C2_peak [of 40 male 0] C2_peak [of 40 female "- 5"] C2_peak [of 33 female 60]
  by simp

text \<open>
  Claim C3. For every peak and every elapsed time, negative ones included, the current
  value is \<open>max 0 (peak - 0.15 * max 0 hours)\<close>; a negative elapsed time gives what
  0 hours give.
\<close>

theorem C3_current:
  "currentBAC p h = max 0 (p - 0.15 * max 0 h)
   \<and> (h < 0 \<longrightarrow> currentBAC p h = currentBAC p 0)"
  by (simp add: currentBAC_def BETA_def max_def)

theorem C3_witness:
  "currentBAC 1 2 = 0.7 \<and> currentBAC 1 (- 3) = currentBAC 1 0 \<and> currentBAC 1 (-3) = 1"
  using C3_current [of 1 2] C3_current [of 1 "- 3"] C3_current [of 1 0]
  by simp

text \<open>
  Claim C4. The time to the legal threshold is 0 exactly when the current value is at
  most 0.5 (so it is 0 at 0.5 itself); above 0.5 it is \<open>(current - 0.5) / 0.15\<close>, which
  is strictly positive.
\<close>

theorem C4_legal:
  "(hoursToLegal c = 0 \<longleftrightarrow> c \<le> 0.5)
   \<and> hoursToLegal 0.5 = 0
   \<and> (\<not> c \<le> 0.5 \<longrightarrow> hoursToLegal c = (c - 0.5) / 0.15 \<and> 0 < hoursToLegal c)"
  by (simp add: hoursToLegal_def LEGAL_LIMIT_def BETA_def)

theorem C4_witness:
  "hoursToLegal 0.8 = 2 \<and> hoursToLegal 0.3 = 0 \<and> hoursToLegal 0.5 = 0"
  using C4_legal [of "0.8"] C4_legal [of "0.3"]
  by simp

text \<open>
  Claim C8. One drink of 500 mL at 5 %, a man of 75 kg, no time elapsed: 19.725 g of
  alcohol (which is \<open>500 * 0.05 * 0.789\<close>), a peak of \<open>19.725 / (75 * 0.68)\<close>, a
  current value equal to the peak, which is below 0.5, so 0 hours to the legal
  threshold, and \<open>peak / 0.15\<close> hours to zero, which is 2.578 to three decimals.
\<close>

theorem C8_scenario:
  "AlcoholCalculator \<lparr>sex = male, weight = 75, hoursSinceStart = 0,
        drinks = [\<lparr>id_drink = i, label = l, volumeMl = 500, abv = 5\<rparr>]\<rparr>
     = Some \<lparr>grams_v = 19.725, peak_v = 19.725 / (75 * 0.68),
             current_v = 19.725 / (75 * 0.68), toLegal_v = 0,
             toZero_v = 19.725 / (75 * 0.68) / 0.15\<rparr>
   \<and> (500 * 0.05 * 0.789 :: real) = 19.725
   \<and> (19.725 / (75 * 0.68) :: real) < 0.5
   \<and> \<bar>19.725 / (75 * 0.68) / 0.15 - 2.578 :: real\<bar> < 0.0005"
proof -
  let ?ds = "[\<lparr>id_drink = i, label = l, volumeMl = 500, abv = 5\<rparr>]"
  have g: "gramsPureAlcohol ?ds = 19.725"
    by (simp add: grams_sum_list)
  have p: "peakBAC 19.725 male 75 = Some (19.725 / (75 * 0.68))"
    by (simp add: peakBAC_Some r_def R_MALE_def)
  have c: "currentBAC (19.725 / (75 * 0.68)) 0 = 19.725 / (75 * 0.68)"
    by (simp add: currentBAC_def)
  have l: "hoursToLegal (19.725 / (75 * 0.68)) = 0"
    by (simp add: hoursToLegal_def LEGAL_LIMIT_def)
  have z: "hoursToZero (19.725 / (75 * 0.68)) = 19.725 / (75 * 0.68) / 0.15"
    by (simp add: hoursToZero_def BETA_def)
  have "AlcoholCalculator \<lparr>sex = male, weight = 75, hoursSinceStart = 0, drinks = ?ds\<rparr>
     = Some \<lparr>grams_v = 19.725, peak_v = 19.725 / (75 * 0.68),
             current_v = 19.725 / (75 * 0.68), toLegal_v = 0,
             toZero_v = 19.725 / (75 * 0.68) / 0.15\<rparr>"
    unfolding AlcoholCalculator_def by (simp only: State.simps g p c l z Let_def option.case)
  then show ?thesis by simp
qed

theorem C8_witness:
  "map_option toZero_v (AlcoholCalculator \<lparr>sex = male, weight = 75, hoursSinceStart = 0,
        drinks = [\<lparr>id_drink = ''k3j9x2a'', label = ''Biere (50 cL, 5%)'', volumeMl = 500, abv = 5\<rparr>]\<rparr>)
     = Some (263 / 102)"
  using C8_scenario [of "''k3j9x2a''" "''Biere (50 cL, 5%)''"]
  by simp

section \<open>Binary64 rounding\<close>

declare bits.simps [simp del]

declare digits.simps [simp del]

lemma bits_bounds: "0 < n \<Longrightarrow> 2 ^ (bits n - 1) \<le> n \<and> n < 2 ^ bits n"
proof (induction n rule: bits.induct)
  case (1 n)
  show ?case
  proof (cases "n div 2 = 0")
    case True
    with "1.prems" have "n = 1" by (simp add: div_eq_0_iff) 
    then show ?thesis by (simp add: bits.simps)
  next
    case False
    then have pos: "0 < n div 2" by simp
    from "1.prems" have b: "bits n = Suc (bits (n div 2))"
      by (subst bits.simps) simp
    have "0 < bits (n div 2)" using pos by (subst bits.simps) simp
    then obtain k where k: "bits (n div 2) = Suc k" by (cases "bits (n div 2)") simp_all
    from "1.IH" [OF _ pos] "1.prems" have "2 ^ k \<le> n div 2" "n div 2 < 2 ^ Suc k"
      by (simp_all add: k)
    then have "2 * 2 ^ k \<le> n" "n < 2 * 2 ^ Suc k" by linarith+
    then show ?thesis by (simp add: b k)
  qed
qed

lemma expo_bounds:
  assumes "0 < a"
  shows "2 powi expo a \<le> a \<and> a < 2 powi (expo a + 1)"
proof (cases "1 \<le> a")
  case True
  let ?n = "nat \<lfloor>a\<rfloor>"
  from True have n: "0 < ?n" by simp
  then have "0 < bits ?n" by (subst bits.simps) simp
  then obtain k where k: "bits ?n = Suc k" by (cases "bits ?n") simp_all
  from bits_bounds [OF n] have "2 ^ k \<le> ?n" "Suc ?n \<le> 2 ^ Suc k" by (simp_all add: k)
  then have "real (2 ^ k) \<le> real ?n" "real (Suc ?n) \<le> real (2 ^ Suc k)"
    by (simp_all only: of_nat_le_iff)
  moreover have "real ?n = of_int \<lfloor>a\<rfloor>" using True by simp
  ultimately have "(2::real) ^ k \<le> of_int \<lfloor>a\<rfloor>" "of_int \<lfloor>a\<rfloor> + 1 \<le> (2::real) ^ Suc k"
    by simp_all
  then have "2 ^ k \<le> a" "a < 2 ^ Suc k" by linarith+
  moreover have "expo a = int k" using True by (simp add: expo_def k)
  ultimately show ?thesis by (simp add: power_int_add)
next
  case False
  with assms have a1: "a < 1" by simp
  let ?c = "\<lceil>1 / a\<rceil>"
  let ?n = "nat (?c - 1)"
  have y: "1 < 1 / a" using assms a1 by simp
  then have c2: "2 \<le> ?c" by (simp add: le_ceiling_iff)
  then have n: "0 < ?n" by simp
  then have "0 < bits ?n" by (subst bits.simps) simp
  then obtain k where k: "bits ?n = Suc k" by (cases "bits ?n") simp_all
  from bits_bounds [OF n] have "2 ^ k \<le> ?n" "Suc ?n \<le> 2 ^ Suc k" by (simp_all add: k)
  then have "real (2 ^ k) \<le> real ?n" "real (Suc ?n) \<le> real (2 ^ Suc k)"
    by (simp_all only: of_nat_le_iff)
  moreover have "real ?n = of_int ?c - 1"
  proof -
    from c2 have "0 \<le> ?c - 1" by linarith
    then have "real (nat (?c - 1)) = of_int (?c - 1)" by (rule of_nat_nat)
    then show ?thesis by simp
  qed
  ultimately have "(2::real) ^ k \<le> of_int ?c - 1" "of_int ?c \<le> (2::real) ^ Suc k"
    by simp_all
  moreover have "of_int ?c - 1 < 1 / a" "1 / a \<le> of_int ?c" by linarith+
  ultimately have lo: "2 ^ k < 1 / a" and hi: "1 / a \<le> 2 ^ Suc k" by linarith+
  from hi assms have "1 / 2 ^ Suc k \<le> a"
    by (simp add: field_simps)
  moreover from lo assms have "a < 1 / 2 ^ k"
    by (simp add: field_simps)
  moreover have e: "expo a = - int (Suc k)" using False by (simp add: expo_def k)
  moreover have "(2::real) powi (- int (Suc k)) = 1 / 2 ^ Suc k"
    by (simp only: power_int_minus_divide power_int_of_nat)
  moreover have "(2::real) powi (- int (Suc k) + 1) = 1 / 2 ^ k"
  proof -
    have "- int (Suc k) + 1 = - int k" by simp
    then show ?thesis by (simp only: power_int_minus_divide power_int_of_nat)
  qed
  ultimately show ?thesis by (simp only:)
qed

lemma binade_unique:
  fixes a :: real
  assumes "2 powi e \<le> a" "a < 2 powi (e + 1)" "2 powi e' \<le> a" "a < 2 powi (e' + 1)"
  shows "e = (e'::int)"
proof (rule ccontr)
  assume "e \<noteq> e'"
  then consider "e + 1 \<le> e'" | "e' + 1 \<le> e" by linarith
  then show False
  proof cases
    case 1
    then have "(2::real) powi (e + 1) \<le> 2 powi e'" by (intro power_int_increasing) simp_all
    with assms show False by linarith
  next
    case 2
    then have "(2::real) powi (e' + 1) \<le> 2 powi e" by (intro power_int_increasing) simp_all
    with assms show False by linarith
  qed
qed

lemma expo_eqI: "2 powi e \<le> a \<Longrightarrow> a < 2 powi (e + 1) \<Longrightarrow> expo a = e"
proof -
  assume lo: "2 powi e \<le> a" and hi: "a < 2 powi (e + 1)"
  have "0 < (2::real) powi e" by simp
  with lo have "0 < a" by linarith
  from expo_bounds [OF this] lo hi show ?thesis
    using binade_unique by blast
qed

lemma pow2_add: "(2::real) powi (a + b) = 2 powi a * 2 powi b"
  by (rule power_int_add) simp

lemma pow2_less: "(2::real) powi a < 2 powi b \<Longrightarrow> a < b"
proof (rule ccontr)
  assume lt: "(2::real) powi a < 2 powi b" and "\<not> a < b"
  then have "b \<le> a" by simp
  then have "(2::real) powi b \<le> 2 powi a" by (intro power_int_increasing) simp_all
  with lt show False by linarith
qed

lemma pow2_mono: "a \<le> b \<Longrightarrow> (2::real) powi a \<le> 2 powi b"
  by (intro power_int_increasing) simp_all

lemma rne_of_int: "rne (of_int k) = k"
  by (simp add: rne_def)

lemma rne_cases: "rne x = \<lfloor>x\<rfloor> \<or> rne x = \<lfloor>x\<rfloor> + 1"
  by (simp add: rne_def Let_def)

lemma rne_err: "\<bar>of_int (rne x) - x\<bar> \<le> 1 / 2"
proof -
  have "of_int \<lfloor>x\<rfloor> \<le> x" "x < of_int \<lfloor>x\<rfloor> + 1" by linarith+
  then show ?thesis by (auto simp add: rne_def Let_def)
qed

lemma rne_mono:
  assumes "x \<le> y"
  shows "rne x \<le> rne y"
proof (cases "\<lfloor>x\<rfloor> = \<lfloor>y\<rfloor>")
  case True
  with assms have "x - of_int \<lfloor>x\<rfloor> \<le> y - of_int \<lfloor>y\<rfloor>" by simp
  with True show ?thesis by (auto simp add: rne_def Let_def)
next
  case False
  moreover from assms have "\<lfloor>x\<rfloor> \<le> \<lfloor>y\<rfloor>" by (rule floor_mono)
  ultimately have "\<lfloor>x\<rfloor> + 1 \<le> \<lfloor>y\<rfloor>" by linarith
  moreover have "rne x \<le> \<lfloor>x\<rfloor> + 1" using rne_cases [of x] by linarith
  moreover have "\<lfloor>y\<rfloor> \<le> rne y" using rne_cases [of y] by linarith
  ultimately show ?thesis by linarith
qed

lemma rne_minus: "rne (- x) = - rne x"
proof (cases "x = of_int \<lfloor>x\<rfloor>")
  case True
  then obtain k where "x = of_int k" ..
  then have "rne x = k" "rne (- x) = - k"
    using rne_of_int [of k] rne_of_int [of "- k"] by simp_all
  then show ?thesis by simp
next
  case False
  have le: "of_int \<lfloor>x\<rfloor> \<le> x" and lt1: "x < of_int \<lfloor>x\<rfloor> + 1" by linarith+
  from le False have "of_int \<lfloor>x\<rfloor> < x" by (metis order_le_less)
  with lt1 have lt: "of_int \<lfloor>x\<rfloor> < x" "x < of_int \<lfloor>x\<rfloor> + 1" by simp_all
  have c: "real_of_int (- \<lfloor>x\<rfloor> - 1) = - of_int \<lfloor>x\<rfloor> - 1" by simp
  have f: "\<lfloor>- x\<rfloor> = - \<lfloor>x\<rfloor> - 1"
  proof (rule floor_unique)
    show "of_int (- \<lfloor>x\<rfloor> - 1) \<le> - x" unfolding c using lt by linarith
    show "- x < of_int (- \<lfloor>x\<rfloor> - 1) + 1" unfolding c using lt by linarith
  qed
  show ?thesis
    unfolding rne_def Let_def f using lt by (auto simp add: algebra_simps)
qed

lemma rne_bound_int:
  "x \<le> of_int k \<Longrightarrow> rne x \<le> k" "of_int k \<le> x \<Longrightarrow> k \<le> rne x"
  using rne_mono [of x "of_int k"] rne_mono [of "of_int k" x] by (simp_all add: rne_of_int)

lemma binade_minus: "binade (- x) = binade x"
  by (simp add: binade_def)

lemma quantum_minus: "quantum (- x) = quantum x"
  by (simp add: quantum_def binade_minus)

lemma quantum_pos: "0 < quantum x"
  by (simp add: quantum_def)

lemma rnd_minus: "rnd (- x) = - rnd x"
  by (simp add: rnd_def quantum_minus rne_minus)

lemma rnd_err: "\<bar>rnd x - x\<bar> \<le> quantum x / 2"
proof -
  let ?q = "quantum x"
  have q: "0 < ?q" by (rule quantum_pos)
  have "rnd x - x = (of_int (rne (x / ?q)) - x / ?q) * ?q"
    using q by (simp add: rnd_def algebra_simps)
  then have "\<bar>rnd x - x\<bar> = \<bar>of_int (rne (x / ?q)) - x / ?q\<bar> * ?q"
    using q by (simp add: abs_mult)
  also have "\<dots> \<le> 1 / 2 * ?q"
    using rne_err [of "x / ?q"] q by (intro mult_right_mono) simp_all
  finally show ?thesis by simp
qed

lemma binade_ge: "- 1022 \<le> binade x"
proof (cases "\<bar>x\<bar> < 2 powi (- 1022)")
  case True
  then show ?thesis by (simp add: binade_def)
next
  case False
  then have lo: "2 powi (- 1022) \<le> \<bar>x\<bar>" by simp
  then have "0 < \<bar>x\<bar>" using zero_less_power_int [of "2::real" "- 1022"] by linarith
  from expo_bounds [OF this] have "\<bar>x\<bar> < 2 powi (expo \<bar>x\<bar> + 1)" by simp
  with lo have "(2::real) powi (- 1022) < 2 powi (expo \<bar>x\<bar> + 1)" by linarith
  then have "- 1022 < expo \<bar>x\<bar> + 1"
    by (rule pow2_less)
  with False show ?thesis by (simp add: binade_def)
qed

lemma binade_upper: "\<bar>x\<bar> < 2 powi (binade x + 1)"
proof (cases "\<bar>x\<bar> < 2 powi (- 1022)")
  case True
  moreover have "(2::real) powi (- 1022) \<le> 2 powi (- 1022 + 1)"
    by (rule pow2_mono) simp
  ultimately show ?thesis by (simp add: binade_def)
next
  case False
  then have lo: "2 powi (- 1022) \<le> \<bar>x\<bar>" by simp
  then have "0 < \<bar>x\<bar>" using zero_less_power_int [of "2::real" "- 1022"] by linarith
  from expo_bounds [OF this] False show ?thesis by (simp add: binade_def)
qed

lemma binade_lower: "2 powi (- 1022) \<le> \<bar>x\<bar> \<Longrightarrow> 2 powi binade x \<le> \<bar>x\<bar>"
proof -
  assume lo: "2 powi (- 1022) \<le> \<bar>x\<bar>"
  then have "0 < \<bar>x\<bar>" using zero_less_power_int [of "2::real" "- 1022"] by linarith
  from expo_bounds [OF this] lo show ?thesis by (simp add: binade_def)
qed

lemma binade_eqI:
  "2 powi e \<le> \<bar>x\<bar> \<Longrightarrow> \<bar>x\<bar> < 2 powi (e + 1) \<Longrightarrow> - 1022 \<le> e \<Longrightarrow> binade x = e"
proof -
  assume lo: "2 powi e \<le> \<bar>x\<bar>" and hi: "\<bar>x\<bar> < 2 powi (e + 1)" and e: "- 1022 \<le> e"
  from e have "(2::real) powi (- 1022) \<le> 2 powi e" by (intro power_int_increasing) simp_all
  with lo have "\<not> \<bar>x\<bar> < 2 powi (- 1022)" by linarith
  then show ?thesis using expo_eqI [OF lo hi] by (simp add: binade_def)
qed

lemma binade_mono:
  assumes "\<bar>x\<bar> \<le> \<bar>y\<bar>"
  shows "binade x \<le> binade y"
proof (cases "\<bar>x\<bar> < 2 powi (- 1022)")
  case True
  then have "binade x = - 1022" by (simp add: binade_def)
  then show ?thesis using binade_ge [of y] by simp
next
  case False
  then have "2 powi (- 1022) \<le> \<bar>x\<bar>" by simp
  then have "2 powi binade x \<le> \<bar>x\<bar>" by (rule binade_lower)
  also note assms
  also note binade_upper [of y]
  finally have "binade x < binade y + 1" by (rule pow2_less)
  then show ?thesis by simp
qed

lemma quantum_half: "quantum x / 2 = 2 powi (binade x - 53)"
proof -
  have "quantum x = 2 powi ((binade x - 53) + 1)" by (simp add: quantum_def)
  also have "\<dots> = 2 powi (binade x - 53) * 2 powi 1" by (rule pow2_add)
  finally show ?thesis by simp
qed

lemma quantum_scale: "quantum x * 2 ^ 52 = 2 powi binade x"
proof -
  have "(2::real) powi (binade x - 52 + 52) = 2 powi (binade x - 52) * 2 powi 52"
    by (rule pow2_add)
  moreover have "binade x - 52 + 52 = binade x" by simp
  moreover have "(2::real) powi 52 = 2 ^ 52" by (rule power_int_numeral)
  ultimately show ?thesis by (simp only: quantum_def)
qed

lemma rnd_rel:
  assumes "2 powi (- 1022) \<le> \<bar>x\<bar>"
  shows "\<bar>rnd x - x\<bar> \<le> \<bar>x\<bar> / 2 ^ 53"
proof -
  have "quantum x * 2 ^ 52 \<le> \<bar>x\<bar>"
    using binade_lower [OF assms] by (simp only: quantum_scale)
  then have "quantum x / 2 \<le> \<bar>x\<bar> / 2 ^ 53" by simp
  with rnd_err [of x] show ?thesis by linarith
qed

lemma quantum_top: "quantum x * 2 ^ 53 = 2 powi (binade x + 1)"
proof -
  have "(2::real) powi (binade x - 52 + 53) = 2 powi (binade x - 52) * 2 powi 53"
    by (rule pow2_add)
  moreover have "binade x - 52 + 53 = binade x + 1" by simp
  moreover have "(2::real) powi 53 = 2 ^ 53" by (rule power_int_numeral)
  ultimately show ?thesis by (simp only: quantum_def)
qed

lemma rnd_nonneg: "0 \<le> x \<Longrightarrow> 0 \<le> rnd x"
proof -
  assume "0 \<le> x"
  then have "of_int 0 \<le> x / quantum x" using quantum_pos [of x] by simp
  then have "0 \<le> rne (x / quantum x)" by (rule rne_bound_int)
  then show ?thesis using quantum_pos [of x] by (simp add: rnd_def)
qed

lemma rnd_le_top:
  assumes "0 \<le> x"
  shows "rnd x \<le> 2 powi (binade x + 1)"
proof -
  let ?q = "quantum x"
  have q: "0 < ?q" by (rule quantum_pos)
  have "\<bar>x\<bar> = x" using assms by simp
  then have "x < 2 powi (binade x + 1)" using binade_upper [of x] by simp
  then have "x < 2 ^ 53 * ?q" by (simp only: quantum_top [symmetric] mult.commute)
  then have "x / ?q < 2 ^ 53" using q by (simp only: pos_divide_less_eq)
  moreover have "real_of_int (2 ^ 53) = 2 ^ 53" by simp
  ultimately have "x / ?q \<le> of_int (2 ^ 53)" by linarith
  then have "rne (x / ?q) \<le> 2 ^ 53" by (rule rne_bound_int)
  then have "real_of_int (rne (x / ?q)) \<le> real_of_int (2 ^ 53)" by (simp only: of_int_le_iff)
  then have "real_of_int (rne (x / ?q)) \<le> 2 ^ 53" by simp
  then have "real_of_int (rne (x / ?q)) * ?q \<le> 2 ^ 53 * ?q"
    using q by (intro mult_right_mono) simp_all
  then show ?thesis by (simp only: rnd_def quantum_top [symmetric] mult.commute)
qed

lemma rnd_ge_bot:
  assumes "2 powi (- 1022) \<le> x"
  shows "2 powi binade x \<le> rnd x"
proof -
  let ?q = "quantum x"
  have q: "0 < ?q" by (rule quantum_pos)
  have pos: "0 \<le> x" using assms zero_less_power_int [of "2::real" "- 1022"] by linarith
  then have ax: "\<bar>x\<bar> = x" by simp
  then have "2 powi binade x \<le> x" using binade_lower [of x] assms by simp
  then have "2 ^ 52 * ?q \<le> x" by (simp only: quantum_scale [symmetric] mult.commute)
  then have "2 ^ 52 \<le> x / ?q" using q by (simp only: pos_le_divide_eq)
  moreover have "real_of_int (2 ^ 52) = 2 ^ 52" by simp
  ultimately have "of_int (2 ^ 52) \<le> x / ?q" by linarith
  then have "2 ^ 52 \<le> rne (x / ?q)" by (rule rne_bound_int)
  then have "real_of_int (2 ^ 52) \<le> real_of_int (rne (x / ?q))" by (simp only: of_int_le_iff)
  then have "2 ^ 52 \<le> real_of_int (rne (x / ?q))" by simp
  then have "2 ^ 52 * ?q \<le> real_of_int (rne (x / ?q)) * ?q"
    using q by (intro mult_right_mono) simp_all
  then show ?thesis by (simp only: rnd_def quantum_scale [symmetric] mult.commute)
qed

lemma rnd_mono_nonneg:
  assumes "0 \<le> x" "x \<le> y"
  shows "rnd x \<le> rnd y"
proof (cases "binade x = binade y")
  case True
  then have q: "quantum x = quantum y" by (simp add: quantum_def)
  have "x / quantum y \<le> y / quantum y"
    using assms quantum_pos [of y] by (simp add: divide_right_mono)
  then have "rne (x / quantum y) \<le> rne (y / quantum y)" by (rule rne_mono)
  then show ?thesis
    unfolding rnd_def q using quantum_pos [of y] by (intro mult_right_mono) simp_all
next
  case False
  have "binade x \<le> binade y" using assms by (intro binade_mono) simp
  with False have lt: "binade x + 1 \<le> binade y" by simp
  have "\<not> \<bar>y\<bar> < 2 powi (- 1022)"
  proof
    assume "\<bar>y\<bar> < 2 powi (- 1022)"
    then have "binade y = - 1022" by (simp only: binade_def if_True)
    with lt binade_ge [of x] show False by simp
  qed
  then have "2 powi (- 1022) \<le> y" using assms by simp
  then have "2 powi binade y \<le> rnd y" by (rule rnd_ge_bot)
  moreover have "rnd x \<le> 2 powi (binade x + 1)" using assms by (intro rnd_le_top)
  moreover have "(2::real) powi (binade x + 1) \<le> 2 powi binade y" using lt by (rule pow2_mono)
  ultimately show ?thesis by linarith
qed

lemma rnd_mono:
  assumes "x \<le> y"
  shows "rnd x \<le> rnd y"
proof -
  consider "0 \<le> x" | "y \<le> 0" | "x < 0" "0 < y" by linarith
  then show ?thesis
  proof cases
    case 1
    then show ?thesis using assms by (rule rnd_mono_nonneg)
  next
    case 2
    then have "rnd (- y) \<le> rnd (- x)" using assms by (intro rnd_mono_nonneg) simp_all
    then show ?thesis by (simp add: rnd_minus)
  next
    case 3
    then have "0 \<le> rnd (- x)" "0 \<le> rnd y" by (simp_all add: rnd_nonneg)
    then show ?thesis by (simp add: rnd_minus)
  qed
qed

lemma rnd_exact: "x = of_int m * quantum x \<Longrightarrow> rnd x = x"
proof -
  assume x: "x = of_int m * quantum x"
  then have "x / quantum x = of_int m" using quantum_pos [of x] by (simp add: field_simps)
  then have "rne (x / quantum x) = m" by (simp add: rne_of_int)
  with x show ?thesis by (simp add: rnd_def)
qed

lemma rnd_idem_nonneg:
  assumes "0 \<le> x"
  shows "rnd (rnd x) = rnd x"
proof -
  let ?y = "rnd x"
  let ?b = "binade x"
  have y0: "0 \<le> ?y" using assms by (rule rnd_nonneg)
  have top: "?y \<le> 2 powi (?b + 1)" using assms by (rule rnd_le_top)
  show ?thesis
  proof (cases "?y = 2 powi (?b + 1)")
    case True
    have "binade ?y = ?b + 1"
    proof (rule binade_eqI)
      show "2 powi (?b + 1) \<le> \<bar>?y\<bar>" using True by simp
      have "(2::real) powi (?b + 1) < 2 powi (?b + 1 + 1)"
        by (intro power_int_strict_increasing) simp_all
      then show "\<bar>?y\<bar> < 2 powi (?b + 1 + 1)" using True by simp
      show "- 1022 \<le> ?b + 1" using binade_ge [of x] by simp
    qed
    then have "quantum ?y * 2 ^ 52 = 2 powi (?b + 1)" by (simp only: quantum_scale)
    moreover have "real_of_int (2 ^ 52) = 2 ^ 52" by simp
    ultimately have "?y = of_int (2 ^ 52) * quantum ?y" using True by (simp only: mult.commute)
    then show ?thesis by (rule rnd_exact)
  next
    case False
    with top have lt: "?y < 2 powi (?b + 1)" by simp
    have "binade ?y = ?b"
    proof (cases "\<bar>x\<bar> < 2 powi (- 1022)")
      case True
      then have b: "?b = - 1022" by (simp only: binade_def if_True)
      show ?thesis
      proof (cases "\<bar>?y\<bar> < 2 powi (- 1022)")
        case True
        then have "binade ?y = - 1022" by (simp only: binade_def if_True)
        then show ?thesis by (simp only: b)
      next
        case False
        then have "2 powi ?b \<le> \<bar>?y\<bar>" by (simp only: b not_less)
        moreover have "\<bar>?y\<bar> < 2 powi (?b + 1)" using lt y0 by simp
        ultimately show ?thesis using binade_ge [of x] by (intro binade_eqI)
      qed
    next
      case False
      then have "2 powi (- 1022) \<le> x" using assms by simp
      then have "2 powi ?b \<le> ?y" by (rule rnd_ge_bot)
      then have "2 powi ?b \<le> \<bar>?y\<bar>" using y0 by simp
      moreover have "\<bar>?y\<bar> < 2 powi (?b + 1)" using lt y0 by simp
      ultimately show ?thesis using binade_ge [of x] by (intro binade_eqI)
    qed
    then have "quantum ?y = quantum x" by (simp add: quantum_def)
    then have "?y = of_int (rne (x / quantum x)) * quantum ?y" by (simp add: rnd_def)
    then show ?thesis by (rule rnd_exact)
  qed
qed

lemma rnd_idem: "rnd (rnd x) = rnd x"
proof (cases "0 \<le> x")
  case True
  then show ?thesis by (rule rnd_idem_nonneg)
next
  case False
  then have "rnd (rnd (- x)) = rnd (- x)" by (intro rnd_idem_nonneg) simp
  then show ?thesis by (simp add: rnd_minus)
qed

lemma rne_near: "\<bar>x - of_int m\<bar> < 1 / 2 \<Longrightarrow> rne x = m"
proof -
  assume n: "\<bar>x - of_int m\<bar> < 1 / 2"
  have e: "\<bar>of_int (rne x) - x\<bar> \<le> 1 / 2" by (rule rne_err)
  have "\<bar>real_of_int (rne x) - of_int m\<bar> < 1" using n e by linarith
  then have "\<bar>real_of_int (rne x - m)\<bar> < 1" by simp
  then have "\<bar>rne x - m\<bar> < 1" by linarith
  then show ?thesis by simp
qed

lemma rne_tie_even: "x = of_int m + 1 / 2 \<Longrightarrow> even m \<Longrightarrow> rne x = m"
proof -
  assume x: "x = of_int m + 1 / 2" and "even m"
  have "\<lfloor>x\<rfloor> = m" unfolding x by (rule floor_unique) simp_all
  with x \<open>even m\<close> show ?thesis by (simp add: rne_def Let_def)
qed

lemma rne_tie_odd: "x = of_int m + 1 / 2 \<Longrightarrow> odd m \<Longrightarrow> rne x = m + 1"
proof -
  assume x: "x = of_int m + 1 / 2" and "odd m"
  have "\<lfloor>x\<rfloor> = m" unfolding x by (rule floor_unique) simp_all
  with x \<open>odd m\<close> show ?thesis by (simp add: rne_def Let_def)
qed

lemma quantum_eqI:
  "2 powi e \<le> \<bar>x\<bar> \<Longrightarrow> \<bar>x\<bar> < 2 powi (e + 1) \<Longrightarrow> - 1022 \<le> e \<Longrightarrow> quantum x = 2 powi (e - 52)"
  by (simp add: quantum_def binade_eqI)

lemma rnd_near:
  assumes "2 powi e \<le> \<bar>x\<bar>" "\<bar>x\<bar> < 2 powi (e + 1)" "- 1022 \<le> e"
    and "\<bar>x / 2 powi (e - 52) - of_int m\<bar> < 1 / 2"
  shows "rnd x = of_int m * 2 powi (e - 52)"
  unfolding rnd_def quantum_eqI [OF assms(1-3)] using rne_near [OF assms(4)] by simp

lemma rnd_tie_even:
  assumes "2 powi e \<le> \<bar>x\<bar>" "\<bar>x\<bar> < 2 powi (e + 1)" "- 1022 \<le> e"
    and "x / 2 powi (e - 52) = of_int m + 1 / 2" "even m"
  shows "rnd x = of_int m * 2 powi (e - 52)"
  unfolding rnd_def quantum_eqI [OF assms(1-3)] using rne_tie_even [OF assms(4,5)] by simp

lemma rnd_tie_odd:
  assumes "2 powi e \<le> \<bar>x\<bar>" "\<bar>x\<bar> < 2 powi (e + 1)" "- 1022 \<le> e"
    and "x / 2 powi (e - 52) = of_int m + 1 / 2" "odd m"
  shows "rnd x = of_int (m + 1) * 2 powi (e - 52)"
  unfolding rnd_def quantum_eqI [OF assms(1-3)] using rne_tie_odd [OF assms(4,5)] by simp

lemma rnd_0: "rnd 0 = 0"
  by (simp add: rnd_def rne_def)

lemma rnd_abs: "\<bar>rnd x\<bar> = rnd \<bar>x\<bar>"
proof (cases "0 \<le> x")
  case True
  then show ?thesis using rnd_nonneg [of x] by simp
next
  case False
  then have "0 \<le> rnd (- x)" by (intro rnd_nonneg) simp
  with False show ?thesis by (simp add: rnd_minus)
qed

lemma rnd_pow2: "- 1022 \<le> e \<Longrightarrow> rnd (2 powi e) = 2 powi e"
proof -
  assume e: "- 1022 \<le> e"
  have lt: "(2::real) powi e < 2 powi (e + 1)" by (intro power_int_strict_increasing) simp_all
  have "quantum (2 powi e) = 2 powi (e - 52)"
    by (rule quantum_eqI) (use lt e in simp_all)
  moreover have "(2::real) powi (e - 52 + 52) = 2 powi (e - 52) * 2 powi 52"
    by (rule pow2_add)
  moreover have "(2::real) powi 52 = of_int (2 ^ 52)" by simp
  ultimately have "2 powi e = of_int (2 ^ 52) * quantum (2 powi e)"
    by (simp only: mult.commute) simp
  then show ?thesis by (rule rnd_exact)
qed

lemma pow2_nat: "0 \<le> n \<Longrightarrow> (2::real) powi n = 2 ^ nat n"
  by (simp add: power_int_def)

lemma rnd_of_int_pos:
  assumes "0 < k" "k \<le> 2 ^ 53"
  shows "rnd (of_int k) = of_int k"
proof -
  let ?x = "real_of_int k"
  let ?b = "binade ?x"
  have x1: "1 \<le> ?x" using assms by simp
  have xle: "?x \<le> 2 ^ 53"
  proof -
    from assms have "real_of_int k \<le> real_of_int (2 ^ 53)" by (simp only: of_int_le_iff)
    then show ?thesis by simp
  qed
  have "(2::real) powi (- 1022) \<le> 2 powi 0" by (rule pow2_mono) simp
  then have norm: "2 powi (- 1022) \<le> \<bar>?x\<bar>" using x1 by simp
  have lo: "2 powi ?b \<le> ?x" using binade_lower [OF norm] x1 by simp
  have hi: "?x < 2 powi (?b + 1)" using binade_upper [of ?x] x1 by simp
  have "(2::real) powi 0 < 2 powi (?b + 1)" using x1 hi by simp
  then have b0: "0 \<le> ?b" using pow2_less [of 0 "?b + 1"] by simp
  have "(2::real) powi 53 < 2 powi 54" by (intro power_int_strict_increasing) simp_all
  moreover have "(2::real) powi 53 = 2 ^ 53" by (rule power_int_numeral)
  ultimately have "2 powi ?b < (2::real) powi 54" using lo xle by linarith
  then have b53: "?b \<le> 53" using pow2_less [of ?b 54] by simp
  show ?thesis
  proof (cases "?b = 53")
    case True
    with lo have "2 powi 53 \<le> ?x" by simp
    moreover have "(2::real) powi 53 = 2 ^ 53" by (rule power_int_numeral)
    ultimately have "?x = 2 powi 53" using xle by linarith
    then show ?thesis using rnd_pow2 [of 53] by simp
  next
    case False
    with b53 have le: "0 \<le> 52 - ?b" by simp
    let ?s = "(2::int) ^ nat (52 - ?b)"
    have "(2::real) powi (?b - 52 + (52 - ?b)) = 2 powi (?b - 52) * 2 powi (52 - ?b)"
      by (rule pow2_add)
    then have "quantum ?x * 2 powi (52 - ?b) = 1" by (simp add: quantum_def)
    then have "quantum ?x * 2 ^ nat (52 - ?b) = 1" using pow2_nat [OF le] by simp
    then have "quantum ?x * real_of_int ?s = 1" by simp
    then have "?x = ?x * (real_of_int ?s * quantum ?x)" by (simp add: mult.commute)
    then have "?x = of_int (k * ?s) * quantum ?x" by (simp only: of_int_mult mult.assoc)
    then show ?thesis by (rule rnd_exact)
  qed
qed

lemma rnd_of_int: "\<bar>k\<bar> \<le> 2 ^ 53 \<Longrightarrow> rnd (of_int k) = of_int k"
proof -
  assume k: "\<bar>k\<bar> \<le> 2 ^ 53"
  consider "k = 0" | "0 < k" | "k < 0" by linarith
  then show ?thesis
  proof cases
    case 1
    then show ?thesis by (simp add: rnd_0)
  next
    case 2
    with k show ?thesis by (intro rnd_of_int_pos) simp_all
  next
    case 3
    with k have "rnd (of_int (- k)) = of_int (- k)" by (intro rnd_of_int_pos) simp_all
    then show ?thesis by (simp add: rnd_minus)
  qed
qed

lemma rnd_bounded: "\<bar>x\<bar> \<le> 2 powi 1023 \<Longrightarrow> \<bar>rnd x\<bar> \<le> 2 powi 1023"
proof -
  assume "\<bar>x\<bar> \<le> 2 powi 1023"
  then have "rnd \<bar>x\<bar> \<le> rnd (2 powi 1023)" by (rule rnd_mono)
  then show ?thesis using rnd_pow2 [of 1023] by (simp add: rnd_abs)
qed

lemma pow2_1023_lt: "(2::real) powi 1023 < 2 powi 1024"
  by (intro power_int_strict_increasing) simp_all

lemma round64_finI: "\<bar>rnd x\<bar> < 2 powi 1024 \<Longrightarrow> round64 x = Fin (rnd x)"
proof -
  assume "\<bar>rnd x\<bar> < 2 powi 1024"
  then have "\<not> 2 powi 1024 \<le> \<bar>rnd x\<bar>" by (simp only: not_le)
  then show ?thesis by (simp only: round64_def if_False)
qed

lemma round64_bounded: "\<bar>x\<bar> \<le> 2 powi 1023 \<Longrightarrow> round64 x = Fin (rnd x)"
proof (rule round64_finI)
  assume "\<bar>x\<bar> \<le> 2 powi 1023"
  then show "\<bar>rnd x\<bar> < 2 powi 1024" using rnd_bounded [of x] pow2_1023_lt by linarith
qed


lemma round64_Fin: "round64 x = Fin y \<Longrightarrow> y = rnd x \<and> \<bar>rnd x\<bar> < 2 powi 1024"
proof (cases "2 powi 1024 \<le> \<bar>rnd x\<bar>")
  case True
  assume "round64 x = Fin y"
  with True have "(if 0 < x then PInf else NInf) = Fin y" by (simp only: round64_def if_True)
  then show ?thesis by (cases "0 < x") (simp_all only: if_True if_False number.distinct)
next
  case False
  assume "round64 x = Fin y"
  with False have "Fin (rnd x) = Fin y" by (simp only: round64_def if_False)
  with False show ?thesis by (simp only: number.inject not_le)
qed

lemma round64_is_double: "round64 x = Fin y \<Longrightarrow> double y"
  using round64_Fin [of x y] by (simp add: double_def rnd_idem)

lemma double_rnd: "\<bar>x\<bar> \<le> 2 powi 1023 \<Longrightarrow> double (rnd x)"
  using round64_bounded [of x] round64_is_double by blast

lemma double_of_int: "\<bar>k\<bar> \<le> 2 ^ 53 \<Longrightarrow> double (of_int k)"
proof -
  assume k: "\<bar>k\<bar> \<le> 2 ^ 53"
  then have "\<bar>real_of_int k\<bar> \<le> real_of_int (2 ^ 53)" by (simp only: of_int_abs [symmetric] of_int_le_iff)
  moreover have "real_of_int (2 ^ 53) = 2 powi 53" by simp
  moreover have "(2::real) powi 53 < 2 powi 1024" by (intro power_int_strict_increasing) simp_all
  ultimately have "\<bar>real_of_int k\<bar> < 2 powi 1024" by linarith
  with rnd_of_int [OF k] show ?thesis by (simp only: double_def)
qed

lemma double_minus: "double x \<Longrightarrow> double (- x)"
  by (simp add: double_def rnd_minus)

lemma double_0: "double 0"
  using double_of_int [of 0] by simp

lemma rnd_rel_u: "2 powi (- 1022) \<le> \<bar>x\<bar> \<Longrightarrow> \<bar>rnd x - x\<bar> \<le> u64 * \<bar>x\<bar>"
  using rnd_rel [of x] by (simp add: u64_def)

lemma rnd_between:
  assumes "2 powi (- 1022) \<le> x"
  shows "x * (1 - u64) \<le> rnd x \<and> rnd x \<le> x * (1 + u64)"
proof -
  have "0 < (2::real) powi (- 1022)" by simp
  with assms have "0 \<le> x" by linarith
  then have "\<bar>x\<bar> = x" by simp
  with rnd_rel_u [of x] assms have "\<bar>rnd x - x\<bar> \<le> u64 * x" by simp
  then show ?thesis by (simp add: algebra_simps abs_le_iff)
qed

subsection \<open>The elimination term of \<open>currentBAC\<close>\<close>

lemma BETA64_val: "rnd 0.15 = (5404319552844595 / 36028797018963968)"
proof -
  have "rnd 0.15 = of_int (5404319552844595) * 2 powi (- 3 - 52)"
    by (rule rnd_near [where e = "- 3" and m = "5404319552844595"]) (simp_all add: power_int_minus)
  then show ?thesis by (simp add: power_int_minus)
qed

lemma u64_pos: "0 < u64" and u64_small: "u64 \<le> 1 / 8"
  by (simp_all add: u64_def)

lemma BETA64_eq: "BETA64 = 5404319552844595 / 36028797018963968"
  unfolding BETA64_def by (rule BETA64_val)

lemma BETA64_pos: "0 < BETA64" and BETA64_lt1: "BETA64 < 1"
  by (simp_all add: BETA64_eq)

lemma pow2_ge1: "0 \<le> e \<Longrightarrow> 1 \<le> (2::real) powi e"
  using pow2_mono [of 0 e] by simp

lemma double_lt: "double x \<Longrightarrow> \<bar>x\<bar> < 2 powi 1024"
  by (simp only: double_def)

lemma double_rnd_id: "double x \<Longrightarrow> rnd x = x"
  by (simp only: double_def)

lemma double_BETA64: "double BETA64"
proof -
  have "rnd BETA64 = BETA64" unfolding BETA64_def by (rule rnd_idem)
  moreover have "\<bar>BETA64\<bar> < 2 powi 1024"
    using BETA64_pos BETA64_lt1 pow2_ge1 [of 1024] by simp
  ultimately show ?thesis by (simp only: double_def)
qed









subsection \<open>Evaluating a rounding\<close>

lemma round64_evalI: "rnd x = y \<Longrightarrow> \<bar>y\<bar> \<le> 2 ^ 64 \<Longrightarrow> round64 x = Fin y"
proof -
  assume y: "rnd x = y" and "\<bar>y\<bar> \<le> 2 ^ 64"
  moreover have "(2::real) powi 64 < 2 powi 1024" by (intro power_int_strict_increasing) simp_all
  moreover have "(2::real) powi 64 = 2 ^ 64" by (rule power_int_numeral)
  ultimately have "\<bar>rnd x\<bar> < 2 powi 1024" by linarith
  then show ?thesis using y by (simp only: round64_finI)
qed


lemma double_numerals: "double 1" "double 3" "double 4" "double 60" "double 100"
  using double_of_int [of 1] double_of_int [of 3] double_of_int [of 4]
    double_of_int [of 60] double_of_int [of 100] by simp_all

section \<open>The claims that depend on rounding\<close>

subsection \<open>Time to zero and time to the legal threshold\<close>


lemma double_repr: "double c \<Longrightarrow> c = of_int (rne (c / quantum c)) * quantum c"
  using double_rnd_id [of c] by (simp only: rnd_def)





















subsection \<open>Current value over time\<close>








subsection \<open>The grams of a list of drinks\<close>

lemma ETHANOL_DENSITY64_val: "rnd 0.789 = (7106680211990643 / 9007199254740992)"
proof -
  have "rnd 0.789 = of_int (7106680211990643) * 2 powi (- 1 - 52)"
    by (rule rnd_near [where e = "- 1" and m = "7106680211990643"]) (simp_all add: power_int_minus)
  then show ?thesis by (simp add: power_int_minus)
qed

lemma ETHANOL_DENSITY64_eq: "ETHANOL_DENSITY64 = (7106680211990643 / 9007199254740992)"
  unfolding ETHANOL_DENSITY64_def by (rule ETHANOL_DENSITY64_val)

lemma ETHANOL_DENSITY64_pos: "0 < ETHANOL_DENSITY64" and ETHANOL_DENSITY64_lt1: "ETHANOL_DENSITY64 < 1"
  by (simp_all add: ETHANOL_DENSITY64_eq)

lemma rnd_1: "rnd 1 = 1"
  using rnd_of_int [of 1] by simp

lemma rnd_finite_below:
  assumes "0 \<le> x" "x \<le> v" "double v"
  shows "round64 x = Fin (rnd x)" "0 \<le> rnd x" "rnd x \<le> v" "double (rnd x)"
proof -
  show r0: "0 \<le> rnd x" using assms(1) by (rule rnd_nonneg)
  have "rnd x \<le> rnd v" using assms(2) by (rule rnd_mono)
  then show rv: "rnd x \<le> v" using double_rnd_id [OF assms(3)] by simp
  have lt: "\<bar>rnd x\<bar> < 2 powi 1024" using r0 rv double_lt [OF assms(3)] by simp
  then show "round64 x = Fin (rnd x)" by (rule round64_finI)
  show "double (rnd x)" using lt by (simp only: double_def rnd_idem) 
qed

lemma grams64_fin:
  assumes "in_contract d"
  shows "grams64 d = Fin (grams_val d)" "0 \<le> grams_val d" "grams_val d \<le> volumeMl d"
    "double (grams_val d)"
proof -
  let ?v = "volumeMl d" and ?a = "abv d"
  from assms have v: "double ?v" "0 \<le> ?v" and a: "0 \<le> ?a" "?a \<le> 100"
    by (simp_all add: in_contract_def)
  have one: "double 1" by (rule double_numerals)
  have q: "0 \<le> ?a / 100" "?a / 100 \<le> 1" using a by simp_all
  note r1 = rnd_finite_below [OF q one]
  have x: "0 \<le> ?v * rnd (?a / 100)" "?v * rnd (?a / 100) \<le> ?v"
    using v(2) r1(2,3) by (simp_all add: mult_left_le)
  note r2 = rnd_finite_below [OF x v(1)]
  have y: "0 \<le> rnd (?v * rnd (?a / 100)) * ETHANOL_DENSITY64"
    "rnd (?v * rnd (?a / 100)) * ETHANOL_DENSITY64 \<le> ?v"
  proof -
    show "0 \<le> rnd (?v * rnd (?a / 100)) * ETHANOL_DENSITY64"
      using r2(2) ETHANOL_DENSITY64_pos by simp
    have "rnd (?v * rnd (?a / 100)) * ETHANOL_DENSITY64 \<le> rnd (?v * rnd (?a / 100)) * 1"
      using r2(2) ETHANOL_DENSITY64_lt1 by (intro mult_left_mono) simp_all
    with r2(3) show "rnd (?v * rnd (?a / 100)) * ETHANOL_DENSITY64 \<le> ?v" by simp
  qed
  note r3 = rnd_finite_below [OF y v(1)]
  show "grams64 d = Fin (grams_val d)"
    unfolding grams64_def grams_val_def by (simp add: r1(1) r2(1) r3(1))
  show "0 \<le> grams_val d" "grams_val d \<le> volumeMl d" "double (grams_val d)"
    unfolding grams_val_def by (rule r3(2), rule r3(3), rule r3(4))
qed

lemma double_grid: 
  assumes "double x"
  shows "\<exists>m. x = of_int m * 2 powi (- 1074)"
proof -
  let ?b = "binade x"
  have le: "0 \<le> ?b + 1022" using binade_ge [of x] by simp
  have "(2::real) powi (- 1074 + (?b + 1022)) = 2 powi (- 1074) * 2 powi (?b + 1022)"
    by (rule pow2_add)
  moreover have "- 1074 + (?b + 1022) = ?b - 52" by simp
  ultimately have "quantum x = 2 powi (- 1074) * 2 ^ nat (?b + 1022)"
    using pow2_nat [OF le] by (simp only: quantum_def)
  then have "quantum x = real_of_int (2 ^ nat (?b + 1022)) * 2 powi (- 1074)"
    by (simp add: mult.commute)
  then have "x = of_int (rne (x / quantum x) * 2 ^ nat (?b + 1022)) * 2 powi (- 1074)"
    using double_repr [OF assms] by (simp only: of_int_mult mult.assoc) 
  then show ?thesis ..
qed

lemma rnd_grid_small:
  assumes "x = of_int m * 2 powi (- 1074)" "\<bar>x\<bar> < 2 powi (- 1022)"
  shows "rnd x = x"
proof -
  have "binade x = - 1022" using assms(2) by (simp only: binade_def if_True)
  moreover have "(- 1022 :: int) - 52 = - 1074" by simp
  ultimately have "quantum x = 2 powi (- 1074)" by (simp only: quantum_def)
  with assms(1) have "x = of_int m * quantum x" by (simp only:)
  then show ?thesis by (rule rnd_exact)
qed

lemma add_rel:
  assumes "double x" "double y" "0 \<le> x" "0 \<le> y" "x + y \<le> 2 powi 1023"
  shows "\<exists>s. round64 (x + y) = Fin s \<and> double s
           \<and> (x + y) * (1 - u64) \<le> s \<and> s \<le> (x + y) * (1 + u64)"
proof -
  have b: "\<bar>x + y\<bar> \<le> 2 powi 1023" using assms(3-5) by simp
  then have r: "round64 (x + y) = Fin (rnd (x + y))" by (rule round64_bounded)
  have d: "double (rnd (x + y))" using b by (rule double_rnd)
  show ?thesis
  proof (cases "x + y < 2 powi (- 1022)")
    case True
    from double_grid [OF assms(1)] double_grid [OF assms(2)]
    obtain m n where "x = of_int m * 2 powi (- 1074)" "y = of_int n * 2 powi (- 1074)" by blast
    then have "x + y = of_int (m + n) * 2 powi (- 1074)" by (simp add: algebra_simps)
    moreover have "\<bar>x + y\<bar> < 2 powi (- 1022)" using True assms(3,4) by simp
    ultimately have e: "rnd (x + y) = x + y" by (rule rnd_grid_small)
    have "0 \<le> (x + y) * u64" using assms(3,4) u64_pos by simp
    then have "(x + y) * (1 - u64) \<le> x + y" "x + y \<le> (x + y) * (1 + u64)"
      by (simp_all add: algebra_simps)
    with r d e show ?thesis by simp
  next
    case False
    then have "2 powi (- 1022) \<le> x + y" by simp
    from rnd_between [OF this] r d show ?thesis by blast
  qed
qed

lemma grams_snoc: "gramsPureAlcohol64 (ds @ [d]) = fadd (gramsPureAlcohol64 ds) (grams64 d)"
  by (simp add: gramsPureAlcohol64_def)

lemma grams_append:
  "gramsPureAlcohol64 (ds1 @ ds2) =
     foldl (\<lambda>sum d. fadd sum (grams64 d)) (gramsPureAlcohol64 ds1) ds2"
  by (simp add: gramsPureAlcohol64_def)

lemma total_le_volume:
  assumes "\<forall>d \<in> set ds. in_contract d"
  shows "0 \<le> sum_list (map grams_val ds) \<and> sum_list (map grams_val ds) \<le> sum_list (map volumeMl ds)
         \<and> 0 \<le> sum_list (map volumeMl ds)"
  using assms
proof (induction ds)
  case Nil
  show ?case by simp
next
  case (Cons d ds)
  then have "in_contract d" by simp
  from grams64_fin(2,3) [OF this] Cons show ?case by simp
qed

lemma sum_step_up:
  fixes S T g s w u :: real
  assumes "0 \<le> S" "0 \<le> T" "0 \<le> w" "0 \<le> u" "2 * w \<le> 1"
    and "g \<le> S * (1 + 2 * w)" "s \<le> (g + T) * (1 + u)"
  shows "s \<le> (S + T) * (1 + 2 * (w + u))"
proof -
  have "T * 1 \<le> T * (1 + 2 * w)" using assms(2,3) by (intro mult_left_mono) simp_all
  then have "g + T \<le> (S + T) * (1 + 2 * w)" using assms(6) by (simp add: algebra_simps)
  then have "(g + T) * (1 + u) \<le> (S + T) * (1 + 2 * w) * (1 + u)"
    using assms(4) by (intro mult_right_mono) simp_all
  moreover have "(2 * w) * u \<le> 1 * u" using assms(4,5) by (intro mult_right_mono) simp_all
  then have "(1 + 2 * w) * (1 + u) \<le> 1 + 2 * (w + u)" by (simp add: algebra_simps)
  then have "(S + T) * ((1 + 2 * w) * (1 + u)) \<le> (S + T) * (1 + 2 * (w + u))"
    using assms(1,2) by (intro mult_left_mono) simp_all
  ultimately show ?thesis using assms(7) by (simp add: mult.assoc)
qed

lemma sum_step_down:
  fixes S T g s w u :: real
  assumes "0 \<le> S" "0 \<le> T" "0 \<le> w" "0 \<le> u" "u \<le> 1" "0 \<le> g"
    and "S * (1 - w) \<le> g" "(g + T) * (1 - u) \<le> s"
  shows "(S + T) * (1 - (w + u)) \<le> s"
proof -
  have "T * (1 - w) \<le> T * 1" using assms(2,3) by (intro mult_left_mono) simp_all
  then have "(S + T) * (1 - w) \<le> g + T" using assms(7) by (simp add: algebra_simps)
  then have "(S + T) * (1 - w) * (1 - u) \<le> (g + T) * (1 - u)"
    using assms(5) by (intro mult_right_mono) simp_all
  moreover have "0 \<le> w * u" using assms(3,4) by simp
  then have "1 - (w + u) \<le> (1 - w) * (1 - u)" by (simp add: algebra_simps)
  then have "(S + T) * (1 - (w + u)) \<le> (S + T) * ((1 - w) * (1 - u))"
    using assms(1,2) by (intro mult_left_mono) simp_all
  ultimately show ?thesis using assms(8) by (simp add: mult.assoc)
qed

lemma sum_bounds:
  assumes "\<forall>d \<in> set ds. in_contract d" "2 * (real (length ds) * u64) \<le> 1"
    and "4 * sum_list (map volumeMl ds) \<le> 2 powi 1023"
  shows "\<exists>g. gramsPureAlcohol64 ds = Fin g \<and> double g \<and> 0 \<le> g
          \<and> sum_list (map grams_val ds) * (1 - real (length ds) * u64) \<le> g
          \<and> g \<le> sum_list (map grams_val ds) * (1 + 2 * (real (length ds) * u64))"
  using assms
proof (induction ds rule: rev_induct)
  case Nil
  show ?case by (simp add: gramsPureAlcohol64_def double_0)
next
  case (snoc d ds)
  define S where "S = sum_list (map grams_val ds)"
  define V where "V = sum_list (map volumeMl ds)"
  define w where "w = real (length ds) * u64"
  define T where "T = grams_val d"
  define v where "v = volumeMl d"
  from snoc.prems(1) have cd: "in_contract d" and cds: "\<forall>d \<in> set ds. in_contract d" by simp_all
  have T: "grams64 d = Fin T" "0 \<le> T" "T \<le> v" "double T"
    unfolding T_def v_def by (rule grams64_fin [OF cd])+
  have SV: "0 \<le> S" "S \<le> V" "0 \<le> V"
    unfolding S_def V_def using total_le_volume [OF cds] by simp_all
  have w0: "0 \<le> w" unfolding w_def using u64_pos by simp
  have w1: "2 * (w + u64) \<le> 1" unfolding w_def using snoc.prems(2) by (simp add: algebra_simps)
  then have w2: "2 * w \<le> 1" using u64_pos by argo
  have V4: "4 * (V + v) \<le> 2 powi 1023" unfolding V_def v_def using snoc.prems(3) by simp
  have v0: "0 \<le> v" using T(2,3) by linarith
  have "4 * V \<le> 2 powi 1023" using V4 v0 by argo
  then have "\<exists>g. gramsPureAlcohol64 ds = Fin g \<and> double g \<and> 0 \<le> g
          \<and> S * (1 - w) \<le> g \<and> g \<le> S * (1 + 2 * w)"
    unfolding S_def V_def w_def using snoc.IH [OF cds] w2 [unfolded w_def] by simp
  then obtain g where g: "gramsPureAlcohol64 ds = Fin g" "double g" "0 \<le> g"
    "S * (1 - w) \<le> g" "g \<le> S * (1 + 2 * w)" by blast
  have "S * (1 + 2 * w) \<le> S * 2" using SV(1) w2 by (intro mult_left_mono) simp_all
  then have "g + T \<le> 2 powi 1023" using g(5) SV T(3) V4 v0 by argo
  from add_rel [OF g(2) T(4) g(3) T(2) this]
  obtain s where s: "round64 (g + T) = Fin s" "double s"
    "(g + T) * (1 - u64) \<le> s" "s \<le> (g + T) * (1 + u64)" by blast
  have u: "0 \<le> u64" "u64 \<le> 1" using u64_pos u64_small by simp_all
  have up: "s \<le> (S + T) * (1 + 2 * (w + u64))"
    using SV(1) T(2) w0 u(1) w2 g(5) s(4) by (rule sum_step_up)
  have down: "(S + T) * (1 - (w + u64)) \<le> s"
    using SV(1) T(2) w0 u g(3,4) s(3) by (rule sum_step_down)
  have "0 \<le> (g + T) * (1 - u64)" using g(3) T(2) u(2) by simp
  with s(3) have s0: "0 \<le> s" by linarith
  have len: "real (length (ds @ [d])) * u64 = w + u64" unfolding w_def by (simp add: algebra_simps)
  have sum: "sum_list (map grams_val (ds @ [d])) = S + T" unfolding S_def T_def by simp
  have "gramsPureAlcohol64 (ds @ [d]) = Fin s" by (simp add: grams_snoc g(1) T(1) s(1))
  with s(2) s0 up down show ?case by (simp only: len sum) blast
qed

lemma sum_via_pairs:
  "sum_list (map (h \<circ> volume_abv) ds) = sum_mset (image_mset h (mset (map volume_abv ds)))"
  by (induction ds) simp_all

lemma all_via_pairs:
  "(\<forall>d \<in> set ds. (P \<circ> volume_abv) d) \<longleftrightarrow> (\<forall>p \<in> set_mset (mset (map volume_abv ds)). P p)"
  by simp

lemma same_pairs:
  assumes "mset (map volume_abv ds1) = mset (map volume_abv ds2)"
  shows "sum_list (map grams_val ds1) = sum_list (map grams_val ds2)"
    and "sum_list (map volumeMl ds1) = sum_list (map volumeMl ds2)"
    and "length ds1 = length ds2"
    and "(\<forall>d \<in> set ds1. in_contract d) \<longleftrightarrow> (\<forall>d \<in> set ds2. in_contract d)"
proof -
  define h :: "real \<times> real \<Rightarrow> real"
    where "h = (\<lambda>p. rnd (rnd (fst p * rnd (snd p / 100)) * ETHANOL_DENSITY64))"
  have g: "grams_val = h \<circ> volume_abv"
    by (rule ext) (simp add: grams_val_def volume_abv_def h_def)
  show "sum_list (map grams_val ds1) = sum_list (map grams_val ds2)"
    by (simp only: g sum_via_pairs assms)
  have v: "volumeMl = fst \<circ> volume_abv"
    by (rule ext) (simp add: volume_abv_def)
  show "sum_list (map volumeMl ds1) = sum_list (map volumeMl ds2)"
    by (simp only: v sum_via_pairs assms)
  from assms have "size (mset (map volume_abv ds1)) = size (mset (map volume_abv ds2))" by simp
  then show "length ds1 = length ds2" by simp
  define P :: "real \<times> real \<Rightarrow> bool"
    where "P = (\<lambda>p. double (fst p) \<and> double (snd p) \<and> 0 \<le> fst p \<and> 0 \<le> snd p \<and> snd p \<le> 100)"
  have c: "in_contract = P \<circ> volume_abv"
    by (rule ext) (simp add: in_contract_def volume_abv_def P_def)
  show "(\<forall>d \<in> set ds1. in_contract d) \<longleftrightarrow> (\<forall>d \<in> set ds2. in_contract d)"
    by (simp only: c all_via_pairs assms)
qed

lemma order_arith:
  fixes S g1 g2 w :: real
  assumes "0 \<le> S" "0 \<le> w"
    and "S * (1 - w) \<le> g1" "g1 \<le> S * (1 + 2 * w)"
    and "S * (1 - w) \<le> g2" "g2 \<le> S * (1 + 2 * w)"
  shows "\<bar>g1 - g2\<bar> \<le> 3 * w * S"
proof -
  define X where "X = S * w"
  have "S - X \<le> g1" "g1 \<le> S + 2 * X" "S - X \<le> g2" "g2 \<le> S + 2 * X"
    using assms(3-6) unfolding X_def by (simp_all add: algebra_simps)
  then have "\<bar>g1 - g2\<bar> \<le> 3 * X" by argo
  then show ?thesis unfolding X_def by (simp add: algebra_simps)
qed

lemma concat_arith:
  fixes G1 G2 g g1 g2 s a b u :: real
  assumes "0 \<le> G1" "0 \<le> G2" "0 \<le> a" "0 \<le> b" "0 \<le> u" "2 * (a + b + u) \<le> 1"
    and "(G1 + G2) * (1 - (a + b)) \<le> g" "g \<le> (G1 + G2) * (1 + 2 * (a + b))"
    and "G1 * (1 - a) \<le> g1" "g1 \<le> G1 * (1 + 2 * a)"
    and "G2 * (1 - b) \<le> g2" "g2 \<le> G2 * (1 + 2 * b)"
    and "(g1 + g2) * (1 - u) \<le> s" "s \<le> (g1 + g2) * (1 + u)"
  shows "\<bar>g - s\<bar> \<le> 3 * (a + b + u) * (G1 + G2)"
proof -
  define S where "S = G1 + G2"
  define w where "w = a + b"
  have S0: "0 \<le> S" using assms(1,2) unfolding S_def by simp
  have w0: "0 \<le> w" using assms(3,4) unfolding w_def by simp
  have w2: "2 * w \<le> 1" using assms(5,6) unfolding w_def by argo
  have u1: "u \<le> 1" using assms(3-6) by argo
  have "G1 * (1 + 2 * a) \<le> G1 * (1 + 2 * w)"
    using assms(1-4) unfolding w_def by (intro mult_left_mono) simp_all
  moreover have "G2 * (1 + 2 * b) \<le> G2 * (1 + 2 * w)"
    using assms(1-4) unfolding w_def by (intro mult_left_mono) simp_all
  ultimately have "g1 + g2 \<le> G1 * (1 + 2 * w) + G2 * (1 + 2 * w)" using assms(10,12) by argo
  then have up: "g1 + g2 \<le> S * (1 + 2 * w)" unfolding S_def by (simp add: algebra_simps)
  have "G1 * (1 - w) \<le> G1 * (1 - a)"
    using assms(1-4) unfolding w_def by (intro mult_left_mono) simp_all
  moreover have "G2 * (1 - w) \<le> G2 * (1 - b)"
    using assms(1-4) unfolding w_def by (intro mult_left_mono) simp_all
  ultimately have "G1 * (1 - w) + G2 * (1 - w) \<le> g1 + g2" using assms(9,11) by argo
  then have down: "S * (1 - w) \<le> g1 + g2" unfolding S_def by (simp add: algebra_simps)
  have "0 \<le> S * (1 - w)" using S0 w2 by simp
  with down have g0: "0 \<le> g1 + g2" by argo
  have z: "(0::real) \<le> 0" by simp
  have a13: "(g1 + g2 + 0) * (1 - u) \<le> s" and a14: "s \<le> (g1 + g2 + 0) * (1 + u)"
    using assms(13,14) by simp_all
  have "s \<le> (S + 0) * (1 + 2 * (w + u))"
    using S0 z w0 assms(5) w2 up a14 by (rule sum_step_up)
  then have s_up: "s \<le> S * (1 + 2 * (w + u))" by simp
  have "(S + 0) * (1 - (w + u)) \<le> s"
    using S0 z w0 assms(5) u1 g0 down a13 by (rule sum_step_down)
  then have s_down: "S * (1 - (w + u)) \<le> s" by simp
  define X where "X = S * w"
  define Y where "Y = S * u"
  have "0 \<le> X" "0 \<le> Y" unfolding X_def Y_def using S0 w0 assms(5) by simp_all
  moreover have "S - X \<le> g" "g \<le> S + 2 * X"
    using assms(7,8) unfolding X_def S_def w_def by (simp_all add: algebra_simps)
  moreover have "S - (X + Y) \<le> s" "s \<le> S + 2 * (X + Y)"
    using s_up s_down unfolding X_def Y_def by (simp_all add: algebra_simps)
  ultimately have "\<bar>g - s\<bar> \<le> 3 * (X + Y)" by argo
  then show ?thesis unfolding X_def Y_def S_def w_def by (simp add: algebra_simps)
qed

lemma ratio_5: "round64 (1 / 20) = Fin (3602879701896397 / 72057594037927936)"
proof -
  have "rnd (1 / 20) = of_int (7205759403792794) * 2 powi (- 5 - 52)"
    by (rule rnd_near [where e = "- 5" and m = "7205759403792794"]) (simp_all add: power_int_minus)
  then have "rnd (1 / 20) = (3602879701896397 / 72057594037927936)" by (simp add: power_int_minus)
  then show ?thesis by (rule round64_evalI) simp
qed

lemma volume_250: "round64 (450359962737049625 / 36028797018963968) = Fin (25 / 2)"
proof -
  have "rnd (450359962737049625 / 36028797018963968) = of_int (7036874417766400) * 2 powi (3 - 52)"
    by (rule rnd_near [where e = "3" and m = "7036874417766400"]) (simp_all add: power_int_minus)
  then have "rnd (450359962737049625 / 36028797018963968) = (25 / 2)" by (simp add: power_int_minus)
  then show ?thesis by (rule round64_evalI) simp
qed

lemma volume_330: "round64 (594475150812905505 / 36028797018963968) = Fin (33 / 2)"
proof -
  have "rnd (594475150812905505 / 36028797018963968) = of_int (4644337115725824) * 2 powi (4 - 52)"
    by (rule rnd_near [where e = "4" and m = "4644337115725824"]) (simp_all add: power_int_minus)
  then have "rnd (594475150812905505 / 36028797018963968) = (33 / 2)" by (simp add: power_int_minus)
  then show ?thesis by (rule round64_evalI) simp
qed

lemma grams_250: "round64 (177667005299766075 / 18014398509481984) = Fin (2776046957808845 / 281474976710656)"
proof -
  have "rnd (177667005299766075 / 18014398509481984) = of_int (5552093915617690) * 2 powi (3 - 52)"
    by (rule rnd_near [where e = "3" and m = "5552093915617690"]) (simp_all add: power_int_minus)
  then have "rnd (177667005299766075 / 18014398509481984) = (2776046957808845 / 281474976710656)" by (simp add: power_int_minus)
  then show ?thesis by (rule round64_evalI) simp
qed

lemma grams_330: "round64 (234520446995691219 / 18014398509481984) = Fin (7328763968615351 / 562949953421312)"
proof -
  have "rnd (234520446995691219 / 18014398509481984) = of_int (7328763968615351) * 2 powi (3 - 52)"
    by (rule rnd_near [where e = "3" and m = "7328763968615351"]) (simp_all add: power_int_minus)
  then have "rnd (234520446995691219 / 18014398509481984) = (7328763968615351 / 562949953421312)" by (simp add: power_int_minus)
  then show ?thesis by (rule round64_evalI) simp
qed

lemma start_250: "round64 (2776046957808845 / 281474976710656) = Fin (2776046957808845 / 281474976710656)"
proof -
  have "rnd (2776046957808845 / 281474976710656) = of_int (5552093915617690) * 2 powi (3 - 52)"
    by (rule rnd_near [where e = "3" and m = "5552093915617690"]) (simp_all add: power_int_minus)
  then have "rnd (2776046957808845 / 281474976710656) = (2776046957808845 / 281474976710656)" by (simp add: power_int_minus)
  then show ?thesis by (rule round64_evalI) simp
qed

lemma start_330: "round64 (7328763968615351 / 562949953421312) = Fin (7328763968615351 / 562949953421312)"
proof -
  have "rnd (7328763968615351 / 562949953421312) = of_int (7328763968615351) * 2 powi (3 - 52)"
    by (rule rnd_near [where e = "3" and m = "7328763968615351"]) (simp_all add: power_int_minus)
  then have "rnd (7328763968615351 / 562949953421312) = (7328763968615351 / 562949953421312)" by (simp add: power_int_minus)
  then show ?thesis by (rule round64_evalI) simp
qed

lemma sum_250_250: "round64 (2776046957808845 / 140737488355328) = Fin (2776046957808845 / 140737488355328)"
proof -
  have "rnd (2776046957808845 / 140737488355328) = of_int (5552093915617690) * 2 powi (4 - 52)"
    by (rule rnd_near [where e = "4" and m = "5552093915617690"]) (simp_all add: power_int_minus)
  then have "rnd (2776046957808845 / 140737488355328) = (2776046957808845 / 140737488355328)" by (simp add: power_int_minus)
  then show ?thesis by (rule round64_evalI) simp
qed

lemma sum_330_250: "round64 (12880857884233041 / 562949953421312) = Fin (805053617764565 / 35184372088832)"
proof -
  have "rnd (12880857884233041 / 562949953421312) = of_int (6440428942116520) * 2 powi (4 - 52)"
    by (rule rnd_tie_even [where e = "4" and m = "6440428942116520"]) (simp_all add: power_int_minus)
  then have "rnd (12880857884233041 / 562949953421312) = (805053617764565 / 35184372088832)" by (simp add: power_int_minus)
  then show ?thesis by (rule round64_evalI) simp
qed

lemma sum_250_250_330: "round64 (18432951799850731 / 562949953421312) = Fin (4608237949962683 / 140737488355328)"
proof -
  have "rnd (18432951799850731 / 562949953421312) = of_int (4608237949962683) * 2 powi (5 - 52)"
    by (rule rnd_near [where e = "5" and m = "4608237949962683"]) (simp_all add: power_int_minus)
  then have "rnd (18432951799850731 / 562949953421312) = (4608237949962683 / 140737488355328)" by (simp add: power_int_minus)
  then show ?thesis by (rule round64_evalI) simp
qed

lemma sum_250_250_330_250: "round64 (11992522857734211 / 281474976710656) = Fin (2998130714433553 / 70368744177664)"
proof -
  have "rnd (11992522857734211 / 281474976710656) = of_int (5996261428867105 + 1) * 2 powi (5 - 52)"
    by (rule rnd_tie_odd [where e = "5" and m = "5996261428867105"]) (simp_all add: power_int_minus)
  then have "rnd (11992522857734211 / 281474976710656) = (2998130714433553 / 70368744177664)" by (simp add: power_int_minus)
  then show ?thesis by (rule round64_evalI) simp
qed

lemma sum_330_250_250: "round64 (9216475899925365 / 281474976710656) = Fin (2304118974981341 / 70368744177664)"
proof -
  have "rnd (9216475899925365 / 281474976710656) = of_int (4608237949962682) * 2 powi (5 - 52)"
    by (rule rnd_tie_even [where e = "5" and m = "4608237949962682"]) (simp_all add: power_int_minus)
  then have "rnd (9216475899925365 / 281474976710656) = (2304118974981341 / 70368744177664)" by (simp add: power_int_minus)
  then show ?thesis by (rule round64_evalI) simp
qed

lemma sum_of_sums: "round64 (5996261428867105 / 140737488355328) = Fin (5996261428867105 / 140737488355328)"
proof -
  have "rnd (5996261428867105 / 140737488355328) = of_int (5996261428867105) * 2 powi (5 - 52)"
    by (rule rnd_near [where e = "5" and m = "5996261428867105"]) (simp_all add: power_int_minus)
  then have "rnd (5996261428867105 / 140737488355328) = (5996261428867105 / 140737488355328)" by (simp add: power_int_minus)
  then show ?thesis by (rule round64_evalI) simp
qed

lemma grams64_250: "grams64 \<lparr>id_drink = i, label = l, volumeMl = 250, abv = 5\<rparr> = Fin (2776046957808845 / 281474976710656)"
  unfolding grams64_def ETHANOL_DENSITY64_eq
  by (simp add: ratio_5 volume_250 grams_250)

lemma grams64_330: "grams64 \<lparr>id_drink = i, label = l, volumeMl = 330, abv = 5\<rparr> = Fin (7328763968615351 / 562949953421312)"
  unfolding grams64_def ETHANOL_DENSITY64_eq
  by (simp add: ratio_5 volume_330 grams_330)

lemma contract_presets:
  "in_contract \<lparr>id_drink = i, label = l, volumeMl = 250, abv = 5\<rparr>"
  "in_contract \<lparr>id_drink = i, label = l, volumeMl = 330, abv = 5\<rparr>"
  using double_of_int [of 250] double_of_int [of 330] double_of_int [of 5]
  by (simp_all add: in_contract_def)

lemma total_preset_volume: "(2320::real) \<le> 2 powi 1023"
proof -
  have "(2::real) powi 12 \<le> 2 powi 1023" by (rule pow2_mono) simp
  moreover have "(2::real) powi 12 = 4096" by simp
  ultimately show ?thesis by linarith
qed

text \<open>
  Claim C7. For drinks with a volume that is not negative and a percentage from 0 to 100,
  the grams of a concatenation are the left-to-right sum continued from the grams of the
  first list. Every partial sum is rounded, so the result need not equal the sum of the
  grams of the two lists, and it may change with the order of the list. With fewer than
  \<open>2 ^ 52\<close> drinks and a total volume of at most \<open>2 ^ 1021\<close> mL, all results are finite;
  the grams of the concatenation and the rounded sum of the grams of the two lists differ
  by at most \<open>3 * (n + 1) * 2 ^ - 53\<close> times the exact sum of the grams of the single
  drinks, \<open>n\<close> being the number of drinks; and two lists with the same multiset of
  (volume, abv) pairs differ by at most \<open>3 * n * 2 ^ - 53\<close> times that sum.
\<close>

theorem C7_grams64:
  assumes "\<forall>d \<in> set ds1. in_contract d" and "\<forall>d \<in> set ds2. in_contract d"
    and "2 * (real (length ds1 + length ds2 + 1) * u64) \<le> 1"
    and "4 * (sum_list (map volumeMl ds1) + sum_list (map volumeMl ds2)) \<le> 2 powi 1023"
  shows "gramsPureAlcohol64 (ds1 @ ds2)
           = foldl (\<lambda>sum d. fadd sum (grams64 d)) (gramsPureAlcohol64 ds1) ds2
       \<and> (\<forall>d \<in> set (ds1 @ ds2). grams64 d = Fin (grams_val d))
       \<and> (\<exists>g g1 g2 s. gramsPureAlcohol64 (ds1 @ ds2) = Fin g
             \<and> gramsPureAlcohol64 ds1 = Fin g1 \<and> gramsPureAlcohol64 ds2 = Fin g2
             \<and> fadd (Fin g1) (Fin g2) = Fin s
             \<and> \<bar>g - s\<bar> \<le> 3 * (real (length ds1 + length ds2 + 1) * u64)
                           * sum_list (map grams_val (ds1 @ ds2)))
       \<and> (mset (map volume_abv ds1) = mset (map volume_abv ds2) \<longrightarrow>
            (\<exists>g1 g2. gramsPureAlcohol64 ds1 = Fin g1 \<and> gramsPureAlcohol64 ds2 = Fin g2
               \<and> \<bar>g1 - g2\<bar> \<le> 3 * (real (length ds1) * u64) * sum_list (map grams_val ds1)))"
proof (intro conjI impI)
  define n1 where "n1 = real (length ds1)"
  define n2 where "n2 = real (length ds2)"
  define a where "a = n1 * u64"
  define b where "b = n2 * u64"
  define G1 where "G1 = sum_list (map grams_val ds1)"
  define G2 where "G2 = sum_list (map grams_val ds2)"
  define V1 where "V1 = sum_list (map volumeMl ds1)"
  define V2 where "V2 = sum_list (map volumeMl ds2)"
  note u0 = u64_pos
  have n0: "0 \<le> n1" "0 \<le> n2" unfolding n1_def n2_def by simp_all
  have a0: "0 \<le> a" and b0: "0 \<le> b" unfolding a_def b_def using n0 u0 by simp_all
  have "real (length ds1 + length ds2 + 1) * u64 = a + b + u64"
    unfolding a_def b_def n1_def n2_def by (simp add: algebra_simps)
  with assms(3) have abu: "2 * (a + b + u64) \<le> 1" by simp
  then have a2: "2 * a \<le> 1" and b2: "2 * b \<le> 1" and ab2: "2 * (a + b) \<le> 1"
    using a0 b0 u0 by argo+
  have GV1: "0 \<le> G1" "G1 \<le> V1" "0 \<le> V1"
    unfolding G1_def V1_def using total_le_volume [OF assms(1)] by simp_all
  have GV2: "0 \<le> G2" "G2 \<le> V2" "0 \<le> V2"
    unfolding G2_def V2_def using total_le_volume [OF assms(2)] by simp_all
  have V: "4 * (V1 + V2) \<le> 2 powi 1023" using assms(4) unfolding V1_def V2_def .
  then have V14: "4 * V1 \<le> 2 powi 1023" and V24: "4 * V2 \<le> 2 powi 1023"
    using GV1(3) GV2(3) by argo+
  have "\<exists>g. gramsPureAlcohol64 ds1 = Fin g \<and> double g \<and> 0 \<le> g
          \<and> G1 * (1 - a) \<le> g \<and> g \<le> G1 * (1 + 2 * a)"
    unfolding G1_def a_def n1_def
    by (rule sum_bounds [OF assms(1)]) (use a2 V14 in \<open>simp_all add: a_def n1_def V1_def\<close>)
  then obtain g1 where g1: "gramsPureAlcohol64 ds1 = Fin g1" "double g1" "0 \<le> g1"
    "G1 * (1 - a) \<le> g1" "g1 \<le> G1 * (1 + 2 * a)" by blast
  have "\<exists>g. gramsPureAlcohol64 ds2 = Fin g \<and> double g \<and> 0 \<le> g
          \<and> G2 * (1 - b) \<le> g \<and> g \<le> G2 * (1 + 2 * b)"
    unfolding G2_def b_def n2_def
    by (rule sum_bounds [OF assms(2)]) (use b2 V24 in \<open>simp_all add: b_def n2_def V2_def\<close>)
  then obtain g2 where g2: "gramsPureAlcohol64 ds2 = Fin g2" "double g2" "0 \<le> g2"
    "G2 * (1 - b) \<le> g2" "g2 \<le> G2 * (1 + 2 * b)" by blast
  have c12: "\<forall>d \<in> set (ds1 @ ds2). in_contract d" using assms(1,2) by auto
  have len: "real (length (ds1 @ ds2)) * u64 = a + b"
    unfolding a_def b_def n1_def n2_def by (simp add: algebra_simps)
  have sumG: "sum_list (map grams_val (ds1 @ ds2)) = G1 + G2" unfolding G1_def G2_def by simp
  have sumV: "sum_list (map volumeMl (ds1 @ ds2)) = V1 + V2" unfolding V1_def V2_def by simp
  have "\<exists>g. gramsPureAlcohol64 (ds1 @ ds2) = Fin g \<and> double g \<and> 0 \<le> g
          \<and> (G1 + G2) * (1 - (a + b)) \<le> g \<and> g \<le> (G1 + G2) * (1 + 2 * (a + b))"
    using sum_bounds [OF c12] ab2 V by (simp only: len sumG sumV)
  then obtain g where g: "gramsPureAlcohol64 (ds1 @ ds2) = Fin g" "double g" "0 \<le> g"
    "(G1 + G2) * (1 - (a + b)) \<le> g" "g \<le> (G1 + G2) * (1 + 2 * (a + b))" by blast
  have "G1 * (1 + 2 * a) \<le> G1 * 2" using GV1(1) a2 by (intro mult_left_mono) simp_all
  moreover have "G2 * (1 + 2 * b) \<le> G2 * 2" using GV2(1) b2 by (intro mult_left_mono) simp_all
  ultimately have "g1 \<le> 2 * V1" "g2 \<le> 2 * V2" using g1(5) g2(5) GV1(2) GV2(2) by simp_all
  then have "g1 + g2 \<le> 2 powi 1023" using GV1(3) GV2(3) V by argo
  from add_rel [OF g1(2) g2(2) g1(3) g2(3) this]
  obtain s where s: "round64 (g1 + g2) = Fin s" "double s"
    "(g1 + g2) * (1 - u64) \<le> s" "s \<le> (g1 + g2) * (1 + u64)" by blast
  have u: "0 \<le> u64" using u0 by simp
  have "\<bar>g - s\<bar> \<le> 3 * (a + b + u64) * (G1 + G2)"
    using GV1(1) GV2(1) a0 b0 u abu g(4,5) g1(4,5) g2(4,5) s(3,4) by (rule concat_arith)
  then have bound: "\<bar>g - s\<bar> \<le> 3 * (real (length ds1 + length ds2 + 1) * u64)
                           * sum_list (map grams_val (ds1 @ ds2))"
    unfolding a_def b_def n1_def n2_def G1_def G2_def by (simp add: algebra_simps)
  have "fadd (Fin g1) (Fin g2) = Fin s" by (simp add: s(1))
  with g(1) g1(1) g2(1) bound
  show "\<exists>g g1 g2 s. gramsPureAlcohol64 (ds1 @ ds2) = Fin g
             \<and> gramsPureAlcohol64 ds1 = Fin g1 \<and> gramsPureAlcohol64 ds2 = Fin g2
             \<and> fadd (Fin g1) (Fin g2) = Fin s
             \<and> \<bar>g - s\<bar> \<le> 3 * (real (length ds1 + length ds2 + 1) * u64)
                           * sum_list (map grams_val (ds1 @ ds2))" by blast
  show "gramsPureAlcohol64 (ds1 @ ds2)
           = foldl (\<lambda>sum d. fadd sum (grams64 d)) (gramsPureAlcohol64 ds1) ds2"
    by (rule grams_append)
  show "\<forall>d \<in> set (ds1 @ ds2). grams64 d = Fin (grams_val d)"
    using c12 grams64_fin(1) by blast
  assume eq: "mset (map volume_abv ds1) = mset (map volume_abv ds2)"
  have GG: "G2 = G1" and ba: "b = a"
    unfolding G1_def G2_def a_def b_def n1_def n2_def using same_pairs(1,3) [OF eq] by simp_all
  have "\<bar>g1 - g2\<bar> \<le> 3 * a * G1"
    using GV1(1) a0 g1(4,5) g2(4,5) [unfolded GG ba] by (rule order_arith)
  then have "\<bar>g1 - g2\<bar> \<le> 3 * (real (length ds1) * u64) * sum_list (map grams_val ds1)"
    unfolding a_def n1_def G1_def by simp
  with g1(1) g2(1)
  show "\<exists>g1 g2. gramsPureAlcohol64 ds1 = Fin g1 \<and> gramsPureAlcohol64 ds2 = Fin g2
               \<and> \<bar>g1 - g2\<bar> \<le> 3 * (real (length ds1) * u64) * sum_list (map grams_val ds1)"
    by blast
qed

theorem C7_witness:
  "(\<exists>g g1 g2 s.
      gramsPureAlcohol64 ([\<lparr>id_drink = ''a'', label = ''25 cL'', volumeMl = 250, abv = 5\<rparr>,
      \<lparr>id_drink = ''c'', label = ''33 cL'', volumeMl = 330, abv = 5\<rparr>] @ [\<lparr>id_drink = ''c'', label = ''33 cL'', volumeMl = 330, abv = 5\<rparr>,
      \<lparr>id_drink = ''a'', label = ''25 cL'', volumeMl = 250, abv = 5\<rparr>]) = Fin g
    \<and> gramsPureAlcohol64 [\<lparr>id_drink = ''a'', label = ''25 cL'', volumeMl = 250, abv = 5\<rparr>,
      \<lparr>id_drink = ''c'', label = ''33 cL'', volumeMl = 330, abv = 5\<rparr>] = Fin g1
    \<and> gramsPureAlcohol64 [\<lparr>id_drink = ''c'', label = ''33 cL'', volumeMl = 330, abv = 5\<rparr>,
      \<lparr>id_drink = ''a'', label = ''25 cL'', volumeMl = 250, abv = 5\<rparr>] = Fin g2
    \<and> fadd (Fin g1) (Fin g2) = Fin s
    \<and> \<bar>g - s\<bar> \<le> 3 * (5 * u64) * sum_list (map grams_val ([\<lparr>id_drink = ''a'', label = ''25 cL'', volumeMl = 250, abv = 5\<rparr>,
      \<lparr>id_drink = ''c'', label = ''33 cL'', volumeMl = 330, abv = 5\<rparr>] @ [\<lparr>id_drink = ''c'', label = ''33 cL'', volumeMl = 330, abv = 5\<rparr>,
      \<lparr>id_drink = ''a'', label = ''25 cL'', volumeMl = 250, abv = 5\<rparr>])))
   \<and> (\<exists>g1 g2.
      gramsPureAlcohol64 [\<lparr>id_drink = ''a'', label = ''25 cL'', volumeMl = 250, abv = 5\<rparr>,
      \<lparr>id_drink = ''c'', label = ''33 cL'', volumeMl = 330, abv = 5\<rparr>] = Fin g1
    \<and> gramsPureAlcohol64 [\<lparr>id_drink = ''c'', label = ''33 cL'', volumeMl = 330, abv = 5\<rparr>,
      \<lparr>id_drink = ''a'', label = ''25 cL'', volumeMl = 250, abv = 5\<rparr>] = Fin g2
    \<and> \<bar>g1 - g2\<bar> \<le> 3 * (2 * u64) * sum_list (map grams_val [\<lparr>id_drink = ''a'', label = ''25 cL'', volumeMl = 250, abv = 5\<rparr>,
      \<lparr>id_drink = ''c'', label = ''33 cL'', volumeMl = 330, abv = 5\<rparr>]))"
proof -
  let ?A = "[\<lparr>id_drink = ''a'', label = ''25 cL'', volumeMl = 250, abv = 5\<rparr>,
      \<lparr>id_drink = ''c'', label = ''33 cL'', volumeMl = 330, abv = 5\<rparr>]"
  let ?B = "[\<lparr>id_drink = ''c'', label = ''33 cL'', volumeMl = 330, abv = 5\<rparr>,
      \<lparr>id_drink = ''a'', label = ''25 cL'', volumeMl = 250, abv = 5\<rparr>]"
  have c: "\<forall>d \<in> set ?A. in_contract d" "\<forall>d \<in> set ?B. in_contract d"
    by (simp_all add: contract_presets)
  have n: "2 * (real (length ?A + length ?B + 1) * u64) \<le> 1" by (simp add: u64_def)
  have v: "4 * (sum_list (map volumeMl ?A) + sum_list (map volumeMl ?B)) \<le> 2 powi 1023"
    using total_preset_volume by simp
  have m: "mset (map volume_abv ?A) = mset (map volume_abv ?B)"
    by (simp add: volume_abv_def add_mset_commute)
  have l: "real (length ?A + length ?B + 1) = 5" "real (length ?A) = 2" by simp_all
  note r = C7_grams64 [OF c n v]
  note r1 = r [THEN conjunct2, THEN conjunct2, THEN conjunct1, unfolded l]
  note r2 = r [THEN conjunct2, THEN conjunct2, THEN conjunct2, THEN mp, OF m, unfolded l]
  from r1 r2 show ?thesis by (rule conjI)
qed

text \<open>
  Claim C7 as stated fails. Take glasses of 25 cL and 33 cL at 5 %. The lists
  \<open>[25, 25]\<close> and \<open>[33, 25]\<close> have 19.725 g and 22.881 g, whose sum rounds to 42.606, but
  their concatenation has 42.60600000000001 g. The list \<open>[25, 25, 33]\<close> has
  32.743500000000004 g and the same drinks in the order \<open>[33, 25, 25]\<close> have 32.7435 g.
\<close>

theorem C7_counterexample:
  "in_contract \<lparr>id_drink = ''a'', label = ''25 cL'', volumeMl = 250, abv = 5\<rparr> \<and> in_contract \<lparr>id_drink = ''c'', label = ''33 cL'', volumeMl = 330, abv = 5\<rparr>
   \<and> gramsPureAlcohol64 ([\<lparr>id_drink = ''a'', label = ''25 cL'', volumeMl = 250, abv = 5\<rparr>,
      \<lparr>id_drink = ''b'', label = ''25 cL'', volumeMl = 250, abv = 5\<rparr>] @ [\<lparr>id_drink = ''c'', label = ''33 cL'', volumeMl = 330, abv = 5\<rparr>,
      \<lparr>id_drink = ''d'', label = ''25 cL'', volumeMl = 250, abv = 5\<rparr>]) = Fin (2998130714433553 / 70368744177664)
   \<and> fadd (gramsPureAlcohol64 [\<lparr>id_drink = ''a'', label = ''25 cL'', volumeMl = 250, abv = 5\<rparr>,
      \<lparr>id_drink = ''b'', label = ''25 cL'', volumeMl = 250, abv = 5\<rparr>]) (gramsPureAlcohol64 [\<lparr>id_drink = ''c'', label = ''33 cL'', volumeMl = 330, abv = 5\<rparr>,
      \<lparr>id_drink = ''d'', label = ''25 cL'', volumeMl = 250, abv = 5\<rparr>]) = Fin (5996261428867105 / 140737488355328)
   \<and> gramsPureAlcohol64 ([\<lparr>id_drink = ''a'', label = ''25 cL'', volumeMl = 250, abv = 5\<rparr>,
      \<lparr>id_drink = ''b'', label = ''25 cL'', volumeMl = 250, abv = 5\<rparr>] @ [\<lparr>id_drink = ''c'', label = ''33 cL'', volumeMl = 330, abv = 5\<rparr>,
      \<lparr>id_drink = ''d'', label = ''25 cL'', volumeMl = 250, abv = 5\<rparr>]) \<noteq> fadd (gramsPureAlcohol64 [\<lparr>id_drink = ''a'', label = ''25 cL'', volumeMl = 250, abv = 5\<rparr>,
      \<lparr>id_drink = ''b'', label = ''25 cL'', volumeMl = 250, abv = 5\<rparr>]) (gramsPureAlcohol64 [\<lparr>id_drink = ''c'', label = ''33 cL'', volumeMl = 330, abv = 5\<rparr>,
      \<lparr>id_drink = ''d'', label = ''25 cL'', volumeMl = 250, abv = 5\<rparr>])
   \<and> mset (map volume_abv [\<lparr>id_drink = ''a'', label = ''25 cL'', volumeMl = 250, abv = 5\<rparr>,
      \<lparr>id_drink = ''b'', label = ''25 cL'', volumeMl = 250, abv = 5\<rparr>,
      \<lparr>id_drink = ''c'', label = ''33 cL'', volumeMl = 330, abv = 5\<rparr>]) = mset (map volume_abv [\<lparr>id_drink = ''c'', label = ''33 cL'', volumeMl = 330, abv = 5\<rparr>,
      \<lparr>id_drink = ''b'', label = ''25 cL'', volumeMl = 250, abv = 5\<rparr>,
      \<lparr>id_drink = ''a'', label = ''25 cL'', volumeMl = 250, abv = 5\<rparr>])
   \<and> gramsPureAlcohol64 [\<lparr>id_drink = ''a'', label = ''25 cL'', volumeMl = 250, abv = 5\<rparr>,
      \<lparr>id_drink = ''b'', label = ''25 cL'', volumeMl = 250, abv = 5\<rparr>,
      \<lparr>id_drink = ''c'', label = ''33 cL'', volumeMl = 330, abv = 5\<rparr>] = Fin (4608237949962683 / 140737488355328)
   \<and> gramsPureAlcohol64 [\<lparr>id_drink = ''c'', label = ''33 cL'', volumeMl = 330, abv = 5\<rparr>,
      \<lparr>id_drink = ''b'', label = ''25 cL'', volumeMl = 250, abv = 5\<rparr>,
      \<lparr>id_drink = ''a'', label = ''25 cL'', volumeMl = 250, abv = 5\<rparr>] = Fin (2304118974981341 / 70368744177664)
   \<and> gramsPureAlcohol64 [\<lparr>id_drink = ''a'', label = ''25 cL'', volumeMl = 250, abv = 5\<rparr>,
      \<lparr>id_drink = ''b'', label = ''25 cL'', volumeMl = 250, abv = 5\<rparr>,
      \<lparr>id_drink = ''c'', label = ''33 cL'', volumeMl = 330, abv = 5\<rparr>] \<noteq> gramsPureAlcohol64 [\<lparr>id_drink = ''c'', label = ''33 cL'', volumeMl = 330, abv = 5\<rparr>,
      \<lparr>id_drink = ''b'', label = ''25 cL'', volumeMl = 250, abv = 5\<rparr>,
      \<lparr>id_drink = ''a'', label = ''25 cL'', volumeMl = 250, abv = 5\<rparr>]"
  unfolding gramsPureAlcohol64_def
  by (simp add: contract_presets grams64_250 grams64_330 start_250 start_330 sum_250_250
      sum_330_250 sum_250_250_330 sum_250_250_330_250 sum_330_250_250 sum_of_sums
      volume_abv_def add_mset_commute)

section \<open>Editing the drink list\<close>

subsection \<open>The claim about editing the drink list\<close>

text \<open>
  Claim C10. \<open>updateDrink\<close> keeps the length of the drink list and, position by
  position, leaves every drink with another id as it is (a drink with the given id
  becomes its spread with the patch); when no drink has the id the state is unchanged.
  \<open>removeDrink\<close> keeps a subsequence of the list, so the relative order of what remains
  is the old one, and what remains is, with multiplicities, exactly the drinks whose id
  differs from the given one.
\<close>

theorem C10_edit_frame:
  "length (drinks (updateDrink i p st)) = length (drinks st)
   \<and> (\<forall>k < length (drinks st). id_drink (drinks st ! k) \<noteq> i
         \<longrightarrow> drinks (updateDrink i p st) ! k = drinks st ! k)
   \<and> (\<forall>k < length (drinks st). id_drink (drinks st ! k) = i
         \<longrightarrow> drinks (updateDrink i p st) ! k = spread (drinks st ! k) p)
   \<and> ((\<forall>d \<in> set (drinks st). id_drink d \<noteq> i) \<longrightarrow> updateDrink i p st = st)
   \<and> subseq (drinks (removeDrink i st)) (drinks st)
   \<and> mset (drinks (removeDrink i st)) = filter_mset (\<lambda>d. id_drink d \<noteq> i) (mset (drinks st))"
proof (intro conjI allI impI)
  show "length (drinks (updateDrink i p st)) = length (drinks st)"
    by (simp add: updateDrink_def)
next
  fix k
  assume "k < length (drinks st)" and "id_drink (drinks st ! k) \<noteq> i"
  then show "drinks (updateDrink i p st) ! k = drinks st ! k"
    by (simp add: updateDrink_def)
next
  fix k
  assume "k < length (drinks st)" and "id_drink (drinks st ! k) = i"
  then show "drinks (updateDrink i p st) ! k = spread (drinks st ! k) p"
    by (simp add: updateDrink_def)
next
  assume none: "\<forall>d \<in> set (drinks st). id_drink d \<noteq> i"
  have "map (\<lambda>d. if id_drink d = i then spread d p else d) (drinks st) = drinks st"
    by (rule map_idI) (simp add: none)
  then show "updateDrink i p st = st"
    by (simp add: updateDrink_def)
next
  show "subseq (drinks (removeDrink i st)) (drinks st)"
    by (simp add: removeDrink_def)
next
  show "mset (drinks (removeDrink i st)) = filter_mset (\<lambda>d. id_drink d \<noteq> i) (mset (drinks st))"
    by (simp add: removeDrink_def)
qed

theorem C10_witness:
  "drinks (updateDrink ''b''
       \<lparr>patch_id = None, patch_label = Some ''Cidre'', patch_volumeMl = None, patch_abv = None\<rparr>
       \<lparr>sex = male, weight = 75, hoursSinceStart = 0,
        drinks = [\<lparr>id_drink = ''a'', label = ''Biere'', volumeMl = 500, abv = 5\<rparr>,
                  \<lparr>id_drink = ''b'', label = ''Vin'', volumeMl = 120, abv = 12\<rparr>,
                  \<lparr>id_drink = ''a'', label = ''Shot'', volumeMl = 40, abv = 40\<rparr>]\<rparr>)
     = [\<lparr>id_drink = ''a'', label = ''Biere'', volumeMl = 500, abv = 5\<rparr>,
        \<lparr>id_drink = ''b'', label = ''Cidre'', volumeMl = 120, abv = 12\<rparr>,
        \<lparr>id_drink = ''a'', label = ''Shot'', volumeMl = 40, abv = 40\<rparr>]
   \<and> updateDrink ''z''
       \<lparr>patch_id = None, patch_label = Some ''Cidre'', patch_volumeMl = None, patch_abv = None\<rparr>
       \<lparr>sex = male, weight = 75, hoursSinceStart = 0,
        drinks = [\<lparr>id_drink = ''a'', label = ''Biere'', volumeMl = 500, abv = 5\<rparr>,
                  \<lparr>id_drink = ''b'', label = ''Vin'', volumeMl = 120, abv = 12\<rparr>,
                  \<lparr>id_drink = ''a'', label = ''Shot'', volumeMl = 40, abv = 40\<rparr>]\<rparr>
     = \<lparr>sex = male, weight = 75, hoursSinceStart = 0,
        drinks = [\<lparr>id_drink = ''a'', label = ''Biere'', volumeMl = 500, abv = 5\<rparr>,
                  \<lparr>id_drink = ''b'', label = ''Vin'', volumeMl = 120, abv = 12\<rparr>,
                  \<lparr>id_drink = ''a'', label = ''Shot'', volumeMl = 40, abv = 40\<rparr>]\<rparr>
   \<and> drinks (removeDrink ''a''
       \<lparr>sex = male, weight = 75, hoursSinceStart = 0,
        drinks = [\<lparr>id_drink = ''a'', label = ''Biere'', volumeMl = 500, abv = 5\<rparr>,
                  \<lparr>id_drink = ''b'', label = ''Vin'', volumeMl = 120, abv = 12\<rparr>,
                  \<lparr>id_drink = ''a'', label = ''Shot'', volumeMl = 40, abv = 40\<rparr>]\<rparr>)
     = [\<lparr>id_drink = ''b'', label = ''Vin'', volumeMl = 120, abv = 12\<rparr>]"
  using C10_edit_frame [of "''b''"
       "\<lparr>patch_id = None, patch_label = Some ''Cidre'', patch_volumeMl = None, patch_abv = None\<rparr>"
       "\<lparr>sex = male, weight = 75, hoursSinceStart = 0,
        drinks = [\<lparr>id_drink = ''a'', label = ''Biere'', volumeMl = 500, abv = 5\<rparr>,
                  \<lparr>id_drink = ''b'', label = ''Vin'', volumeMl = 120, abv = 12\<rparr>,
                  \<lparr>id_drink = ''a'', label = ''Shot'', volumeMl = 40, abv = 40\<rparr>]\<rparr>"]
    C10_edit_frame [of "''z''"
       "\<lparr>patch_id = None, patch_label = Some ''Cidre'', patch_volumeMl = None, patch_abv = None\<rparr>"
       "\<lparr>sex = male, weight = 75, hoursSinceStart = 0,
        drinks = [\<lparr>id_drink = ''a'', label = ''Biere'', volumeMl = 500, abv = 5\<rparr>,
                  \<lparr>id_drink = ''b'', label = ''Vin'', volumeMl = 120, abv = 12\<rparr>,
                  \<lparr>id_drink = ''a'', label = ''Shot'', volumeMl = 40, abv = 40\<rparr>]\<rparr>"]
    C10_edit_frame [of "''a''"
       "\<lparr>patch_id = None, patch_label = Some ''Cidre'', patch_volumeMl = None, patch_abv = None\<rparr>"
       "\<lparr>sex = male, weight = 75, hoursSinceStart = 0,
        drinks = [\<lparr>id_drink = ''a'', label = ''Biere'', volumeMl = 500, abv = 5\<rparr>,
                  \<lparr>id_drink = ''b'', label = ''Vin'', volumeMl = 120, abv = 12\<rparr>,
                  \<lparr>id_drink = ''a'', label = ''Shot'', volumeMl = 40, abv = 40\<rparr>]\<rparr>"]
  by (simp add: updateDrink_def removeDrink_def spread_def)

end
